theory Spec2Isabelle
  imports Main "HOL-Library.Word"
begin

section \<open>Integers, pointers and failures\<close>

text \<open>
  The library computes sizes, strides and offsets in the C++ type \<^verbatim>\<open>int\<close>, here a
  32-bit two's-complement word whose arithmetic wraps around. Template arguments
  (\<^verbatim>\<open>N\<close>, \<^verbatim>\<open>M\<close>, \<^verbatim>\<open>P\<close>, \<^verbatim>\<open>Nf\<close>, \<^verbatim>\<open>C\<close>) are compile-time constants and are
  modelled as \<open>nat\<close> or \<open>int\<close> arguments of the functions that take them.
\<close>

type_synonym cint = "32 word"

text \<open>An element pointer is a byte address; the null pointer is 0.\<close>

type_synonym pointer = int

text \<open>\<^verbatim>\<open>Core\<close> and \<^verbatim>\<open>Manager\<close> objects live in a store and are named by their address.\<close>

type_synonym ref = nat

text \<open>
  What the C++ leaves undefined or rejects is a value of the model:
  \<^item> \<open>OutOfRange\<close>: \<^verbatim>\<open>elems[i]\<close> of a \<^verbatim>\<open>Vector\<close> outside \<^verbatim>\<open>[0, N)\<close>;
  \<^item> \<open>NullPointer\<close>: \<^verbatim>\<open>operator->\<close> on a null \<^verbatim>\<open>intrusive_ptr\<close>;
  \<^item> \<open>Dangling\<close>: an address at which the store holds no object;
  \<^item> \<open>StaticAssert\<close>: an instantiation the compiler rejects;
  \<^item> \<open>AssertFailed\<close>: \<^verbatim>\<open>NDARRAY_ASSERT(false)\<close>.
\<close>

datatype error = OutOfRange | NullPointer | Dangling | StaticAssert | AssertFailed

definition and_then :: "error + 'a \<Rightarrow> ('a \<Rightarrow> error + 'b) \<Rightarrow> error + 'b" where
  "and_then r f = (case r of Inl e \<Rightarrow> Inl e | Inr x \<Rightarrow> f x)"

section \<open>Vector\<close>

text \<open>
  \<^verbatim>\<open>Vector<T,N>\<close> holds \<^verbatim>\<open>T elems[N]\<close>: a list whose length is the template argument.
  \<^verbatim>\<open>operator[]\<close> does not check its index.
\<close>

definition at :: "'a list \<Rightarrow> int \<Rightarrow> error + 'a" where
  "at v i = (if 0 \<le> i \<and> i < int (length v) then Inr (v ! nat i) else Inl OutOfRange)"

definition put :: "'a list \<Rightarrow> int \<Rightarrow> 'a \<Rightarrow> error + 'a list" where
  "put v i x = (if 0 \<le> i \<and> i < int (length v) then Inr (v[nat i := x]) else Inl OutOfRange)"

text \<open>\<^verbatim>\<open>first<M>()\<close> copies \<^verbatim>\<open>[begin(), begin() + M)\<close> into a fresh \<^verbatim>\<open>Vector<T,M>\<close>.\<close>

definition first :: "nat \<Rightarrow> 'a list \<Rightarrow> error + 'a list" where
  "first M v = (if M \<le> length v then Inr (take M v) else Inl OutOfRange)"

text \<open>\<^verbatim>\<open>Vector * scalar\<close>: a copy \<^verbatim>\<open>r(a)\<close>, then \<^verbatim>\<open>r *= b\<close> on every slot.\<close>

definition times_scalar :: "cint list \<Rightarrow> cint \<Rightarrow> cint list" where
  "times_scalar a b = map (\<lambda>x. x * b) a"

text \<open>
  The specialization \<^verbatim>\<open>Vector<T,0>\<close> has no data member. Its three constructors ignore
  their arguments, and its members return constants.
\<close>

datatype 'a Vector0 = Vector0

definition Vector0_default :: "'a Vector0" where
  "Vector0_default = Vector0"

definition Vector0_scalar :: "'u \<Rightarrow> 'a Vector0" where
  "Vector0_scalar scalar = Vector0"

definition Vector0_copy :: "'u Vector0 \<Rightarrow> 'a Vector0" where
  "Vector0_copy other = Vector0"

definition Vector0_eq :: "'a Vector0 \<Rightarrow> 'a Vector0 \<Rightarrow> bool" where
  "Vector0_eq v other = True"

definition Vector0_neq :: "'a Vector0 \<Rightarrow> 'a Vector0 \<Rightarrow> bool" where
  "Vector0_neq v other = False"

definition Vector0_sum :: "'a Vector0 \<Rightarrow> 'a::zero" where
  "Vector0_sum v = 0"

definition Vector0_product :: "'a Vector0 \<Rightarrow> 'a::one" where
  "Vector0_product v = 1"

definition Vector0_at :: "'a Vector0 \<Rightarrow> int \<Rightarrow> error + 'a" where
  "Vector0_at v i = Inl AssertFailed"

section \<open>Core\<close>

text \<open>
  \<^verbatim>\<open>Core<N>\<close> derives from \<^verbatim>\<open>Core<N-1>\<close> and adds \<^verbatim>\<open>_size\<close> and \<^verbatim>\<open>_stride\<close>;
  \<^verbatim>\<open>Core<0>\<close> holds \<^verbatim>\<open>_manager\<close> (a \<^verbatim>\<open>Manager::Ptr\<close>, possibly null) and \<^verbatim>\<open>_rc\<close>.
  An object of class \<^verbatim>\<open>Core<N>\<close> is a chain of \<open>N\<close> levels above a \<open>Core0\<close>.
\<close>

datatype Core =
    Core0 "ref option" cint
  | CoreN cint cint Core

fun ND :: "Core \<Rightarrow> nat" where
  "ND (Core0 manager rc) = 0"
| "ND (CoreN sz stride super) = Suc (ND super)"

fun Core_getSize :: "Core \<Rightarrow> cint" where
  "Core_getSize (Core0 manager rc) = 1"
| "Core_getSize (CoreN sz stride super) = sz"

fun Core_getStride :: "Core \<Rightarrow> cint" where
  "Core_getStride (Core0 manager rc) = 1"
| "Core_getStride (CoreN sz stride super) = stride"

fun Core_getManager :: "Core \<Rightarrow> ref option" where
  "Core_getManager (Core0 manager rc) = manager"
| "Core_getManager (CoreN sz stride super) = Core_getManager super"

fun getRC :: "Core \<Rightarrow> cint" where
  "getRC (Core0 manager rc) = rc"
| "getRC (CoreN sz stride super) = getRC super"

text \<open>
  \<^verbatim>\<open>computeOffset<M>(index)\<close> in \<^verbatim>\<open>Core<N>\<close> is
  \<^verbatim>\<open>index[M-N] * getStride() + Super::computeOffset(index)\<close>, and 0 in \<^verbatim>\<open>Core<0>\<close>.
\<close>

fun computeOffset :: "Core \<Rightarrow> cint list \<Rightarrow> error + cint" where
  "computeOffset (Core0 manager rc) index = Inr 0"
| "computeOffset (CoreN sz stride super) index =
     and_then (at index (int (length index) - int (Suc (ND super)))) (\<lambda>x.
     and_then (computeOffset super index) (\<lambda>rest.
     Inr (x * stride + rest)))"

text \<open>\<^verbatim>\<open>fillShape<M>(shape)\<close>: \<^verbatim>\<open>shape[M-N] = getSize(); Super::fillShape(shape)\<close>.\<close>

fun fillShape :: "Core \<Rightarrow> cint list \<Rightarrow> error + cint list" where
  "fillShape (Core0 manager rc) shape = Inr shape"
| "fillShape (CoreN sz stride super) shape =
     and_then (put shape (int (length shape) - int (Suc (ND super))) sz) (fillShape super)"

fun fillStrides :: "Core \<Rightarrow> cint list \<Rightarrow> error + cint list" where
  "fillStrides (Core0 manager rc) strides = Inr strides"
| "fillStrides (CoreN sz stride super) strides =
     and_then (put strides (int (length strides) - int (Suc (ND super))) stride) (fillStrides super)"

fun Core_getNumElements :: "Core \<Rightarrow> cint" where
  "Core_getNumElements (Core0 manager rc) = 1"
| "Core_getNumElements (CoreN sz stride super) = sz * Core_getNumElements super"

text \<open>\<^verbatim>\<open>getDimension<P>\<close> converts a \<^verbatim>\<open>Core<N>\<close> to its base \<^verbatim>\<open>Core<N-P>\<close>.\<close>

fun getDimension :: "nat \<Rightarrow> Core \<Rightarrow> error + Core" where
  "getDimension 0 c = Inr c"
| "getDimension (Suc P) (CoreN sz stride super) = getDimension P super"
| "getDimension (Suc P) (Core0 manager rc) = Inl StaticAssert"

text \<open>The sizes and strides of a chain, outermost level (dimension 0) first.\<close>

fun sizes :: "Core \<Rightarrow> cint list" where
  "sizes (Core0 manager rc) = []"
| "sizes (CoreN sz stride super) = sz # sizes super"

fun strides_of :: "Core \<Rightarrow> cint list" where
  "strides_of (Core0 manager rc) = []"
| "strides_of (CoreN sz stride super) = stride # strides_of super"

text \<open>
  The protected constructors. Each runs its base-class initialiser, then sets \<^verbatim>\<open>_size\<close>
  and \<^verbatim>\<open>_stride\<close>; the argument \<open>N\<close> is the rank of the class being constructed and
  \<^verbatim>\<open>M\<close> is the length of the vectors. \<^verbatim>\<open>Core<0>\<close> ignores the vectors and starts
  with \<^verbatim>\<open>_rc(1)\<close>.
\<close>

text \<open>Explicit strides: \<^verbatim>\<open>_size(shape[M-N]), _stride(strides[M-N])\<close>.\<close>

fun Core_explicit :: "nat \<Rightarrow> cint list \<Rightarrow> cint list \<Rightarrow> ref option \<Rightarrow> error + Core" where
  "Core_explicit 0 shape strides manager = Inr (Core0 manager 1)"
| "Core_explicit (Suc n) shape strides manager =
     and_then (Core_explicit n shape strides manager) (\<lambda>super.
     and_then (at shape (int (length shape) - int (Suc n))) (\<lambda>sz.
     and_then (at strides (int (length shape) - int (Suc n))) (\<lambda>stride.
     Inr (CoreN sz stride super))))"

text \<open>Row-major strides: \<^verbatim>\<open>_size(shape[M-N]), _stride(Super::getStride() * Super::getSize())\<close>.\<close>

fun Core_row_major :: "nat \<Rightarrow> cint list \<Rightarrow> ref option \<Rightarrow> error + Core" where
  "Core_row_major 0 shape manager = Inr (Core0 manager 1)"
| "Core_row_major (Suc n) shape manager =
     and_then (Core_row_major n shape manager) (\<lambda>super.
     and_then (at shape (int (length shape) - int (Suc n))) (\<lambda>sz.
     Inr (CoreN sz (Core_getStride super * Core_getSize super) super)))"

text \<open>
  Column-major strides: \<^verbatim>\<open>Super(shape, stride * shape[M-N], manager), _size(shape[M-N]),
  _stride(stride)\<close>.
\<close>

fun Core_column_major :: "nat \<Rightarrow> cint list \<Rightarrow> cint \<Rightarrow> ref option \<Rightarrow> error + Core" where
  "Core_column_major 0 shape stride manager = Inr (Core0 manager 1)"
| "Core_column_major (Suc n) shape stride manager =
     and_then (at shape (int (length shape) - int (Suc n))) (\<lambda>sz.
     and_then (Core_column_major n shape (stride * sz) manager) (\<lambda>super.
     Inr (CoreN sz stride super)))"

text \<open>Zero shape and strides: \<^verbatim>\<open>Super(manager), _size(0), _stride(0)\<close>.\<close>

fun Core_zero :: "nat \<Rightarrow> ref option \<Rightarrow> Core" where
  "Core_zero 0 manager = Core0 manager 1"
| "Core_zero (Suc n) manager = CoreN 0 0 (Core_zero n manager)"

text \<open>\<^verbatim>\<open>intrusive_ptr_add_ref(Core const *)\<close>: \<^verbatim>\<open>++core->_rc\<close>, in the \<^verbatim>\<open>Core<0>\<close> base.\<close>

fun add_ref :: "Core \<Rightarrow> Core" where
  "add_ref (Core0 manager rc) = Core0 manager (rc + 1)"
| "add_ref (CoreN sz stride super) = CoreN sz stride (add_ref super)"

section \<open>The store\<close>

text \<open>
  \<^verbatim>\<open>Manager.h\<close> is not among the sources. \<^verbatim>\<open>Core<0>::isUnique\<close> uses two members of a
  \<^verbatim>\<open>Manager\<close>, \<^verbatim>\<open>getRC()\<close> and the virtual \<^verbatim>\<open>isUnique()\<close>; a Manager object is
  modelled by what these two return.
\<close>

record Manager =
  Manager_getRC :: cint
  Manager_isUnique :: bool

record heap =
  cores :: "ref \<Rightarrow> Core option"
  managers :: "ref \<Rightarrow> Manager option"
  fresh :: ref

text \<open>\<^verbatim>\<open>new Core(...)\<close> places the object at the next unused address.\<close>

definition new_Core :: "heap \<Rightarrow> Core \<Rightarrow> ref \<times> heap" where
  "new_Core h c = (fresh h, h\<lparr>cores := (cores h)(fresh h \<mapsto> c), fresh := Suc (fresh h)\<rparr>)"

text \<open>
  Modelled from the spec: copying a \<^verbatim>\<open>Manager::Ptr\<close> (\<^verbatim>\<open>Manager.h\<close> is not among the
  sources). The spec says that Core reference counting mirrors Manager's, with an explicit
  increment; a null pointer counts nothing.
\<close>

definition Manager_add_ref :: "heap \<Rightarrow> ref option \<Rightarrow> error + heap" where
  "Manager_add_ref h manager =
     (case manager of
        None \<Rightarrow> Inr h
      | Some m \<Rightarrow>
          (case managers h m of
             None \<Rightarrow> Inl Dangling
           | Some mg \<Rightarrow>
               Inr (h\<lparr>managers := (managers h)(m \<mapsto> mg\<lparr>Manager_getRC := Manager_getRC mg + 1\<rparr>)\<rparr>)))"

text \<open>Copying a \<^verbatim>\<open>Core::Ptr\<close> calls \<^verbatim>\<open>intrusive_ptr_add_ref\<close> on the object.\<close>

definition Core_add_ref :: "heap \<Rightarrow> ref \<Rightarrow> error + heap" where
  "Core_add_ref h p =
     (case cores h p of
        None \<Rightarrow> Inl Dangling
      | Some c \<Rightarrow> Inr (h\<lparr>cores := (cores h)(p \<mapsto> add_ref c)\<rparr>))"

text \<open>
  The static factories of \<^verbatim>\<open>Core<N>\<close>. Both vectors of the first one have the type
  \<^verbatim>\<open>Vector<int,M>\<close>. The \<^verbatim>\<open>Core<0>\<close> constructor copies the \<^verbatim>\<open>Manager::Ptr\<close>, and
  \<^verbatim>\<open>Ptr(new Core(...), false)\<close> leaves the count of the new object at 1.
\<close>

definition create :: "nat \<Rightarrow> heap \<Rightarrow> cint list \<Rightarrow> cint list \<Rightarrow> ref option \<Rightarrow> error + ref \<times> heap" where
  "create N h shape strides manager =
     (if length shape \<noteq> length strides then Inl StaticAssert
      else
        and_then (Core_explicit N shape strides manager) (\<lambda>c.
        and_then (Manager_add_ref h manager) (\<lambda>h'.
        Inr (new_Core h' c))))"

datatype DataOrderEnum = ROW_MAJOR | COLUMN_MAJOR

definition create_order :: "nat \<Rightarrow> heap \<Rightarrow> cint list \<Rightarrow> DataOrderEnum \<Rightarrow> ref option \<Rightarrow> error + ref \<times> heap" where
  "create_order N h shape order manager =
     and_then (if order = ROW_MAJOR then Core_row_major N shape manager
               else Core_column_major N shape 1 manager) (\<lambda>c.
     and_then (Manager_add_ref h manager) (\<lambda>h'.
     Inr (new_Core h' c)))"

definition create_zero :: "nat \<Rightarrow> heap \<Rightarrow> ref option \<Rightarrow> error + ref \<times> heap" where
  "create_zero N h manager =
     and_then (Manager_add_ref h manager) (\<lambda>h'.
     Inr (new_Core h' (Core_zero N manager)))"

text \<open>
  \<^verbatim>\<open>isUnique\<close> of \<^verbatim>\<open>Core<0>\<close>, inherited by every \<^verbatim>\<open>Core<N>\<close>:
  \<^verbatim>\<open>(_rc == 1) && (_manager->getRC() == 1) && _manager->isUnique()\<close>. The conjunction
  is evaluated left to right and stops at the first false operand.
\<close>

fun isUnique :: "heap \<Rightarrow> Core \<Rightarrow> error + bool" where
  "isUnique h (Core0 manager rc) =
     (if rc = 1 then
        (case manager of
           None \<Rightarrow> Inl NullPointer
         | Some m \<Rightarrow>
             (case managers h m of
                None \<Rightarrow> Inl Dangling
              | Some mg \<Rightarrow>
                  if Manager_getRC mg = 1 then Inr (Manager_isUnique mg) else Inr False))
      else Inr False)"
| "isUnique h (CoreN sz stride super) = isUnique h super"

section \<open>ArrayBase\<close>

text \<open>
  An array view holds \<^verbatim>\<open>Element * _data\<close> and \<^verbatim>\<open>CorePtr _core\<close>. Its element type
  \<^verbatim>\<open>T\<close>, its rank \<^verbatim>\<open>N\<close> and its contiguity \<^verbatim>\<open>C\<close> are template arguments. The
  \<^verbatim>\<open>CorePtr\<close> of a view of rank \<open>N\<close> points to the \<^verbatim>\<open>Core<N>\<close> base of an object whose
  own class may have more dimensions.
\<close>

record ArrayBase =
  data :: pointer
  core :: ref

text \<open>
  An element type is known by its size in bytes; \<open>Complex n\<close> is \<^verbatim>\<open>std::complex\<close> over a
  real type of \<open>n\<close> bytes, laid out as two adjacent reals.
\<close>

datatype Element = Arithmetic nat | Complex nat

fun sizeof :: "Element \<Rightarrow> nat" where
  "sizeof (Arithmetic n) = n"
| "sizeof (Complex n) = 2 * n"

text \<open>\<^verbatim>\<open>p + k\<close> on a \<^verbatim>\<open>T *\<close> with an \<^verbatim>\<open>int\<close> \<open>k\<close>.\<close>

definition ptr_add :: "Element \<Rightarrow> pointer \<Rightarrow> cint \<Rightarrow> pointer" where
  "ptr_add T p k = p + int (sizeof T) * sint k"

text \<open>The \<^verbatim>\<open>Core<N>\<close> that a view of rank \<open>N\<close> reaches through \<^verbatim>\<open>_core\<close>.\<close>

definition core_at :: "nat \<Rightarrow> heap \<Rightarrow> ref \<Rightarrow> error + Core" where
  "core_at N h p =
     (case cores h p of
        None \<Rightarrow> Inl Dangling
      | Some c \<Rightarrow> if N \<le> ND c then getDimension (ND c - N) c else Inl StaticAssert)"

definition getData :: "ArrayBase \<Rightarrow> pointer" where
  "getData a = data a"

definition isEmpty :: "ArrayBase \<Rightarrow> bool" where
  "isEmpty a = (data a = 0)"

definition getManager :: "nat \<Rightarrow> heap \<Rightarrow> ArrayBase \<Rightarrow> error + ref option" where
  "getManager N h a = and_then (core_at N h (core a)) (\<lambda>c. Inr (Core_getManager c))"

definition getSize :: "nat \<Rightarrow> nat \<Rightarrow> heap \<Rightarrow> ArrayBase \<Rightarrow> error + cint" where
  "getSize N P h a =
     and_then (core_at N h (core a)) (\<lambda>c.
     and_then (getDimension P c) (\<lambda>d. Inr (Core_getSize d)))"

definition getStride :: "nat \<Rightarrow> nat \<Rightarrow> heap \<Rightarrow> ArrayBase \<Rightarrow> error + cint" where
  "getStride N P h a =
     and_then (core_at N h (core a)) (\<lambda>c.
     and_then (getDimension P c) (\<lambda>d. Inr (Core_getStride d)))"

text \<open>\<^verbatim>\<open>Index r; _core->fillShape(r); return r;\<close> where the default \<^verbatim>\<open>Index\<close> is all zero.\<close>

definition getShape :: "nat \<Rightarrow> heap \<Rightarrow> ArrayBase \<Rightarrow> error + cint list" where
  "getShape N h a = and_then (core_at N h (core a)) (\<lambda>c. fillShape c (replicate N 0))"

definition getStrides :: "nat \<Rightarrow> heap \<Rightarrow> ArrayBase \<Rightarrow> error + cint list" where
  "getStrides N h a = and_then (core_at N h (core a)) (\<lambda>c. fillStrides c (replicate N 0))"

definition getNumElements :: "nat \<Rightarrow> heap \<Rightarrow> ArrayBase \<Rightarrow> error + cint" where
  "getNumElements N h a = and_then (core_at N h (core a)) (\<lambda>c. Inr (Core_getNumElements c))"

text \<open>
  The constructor \<^verbatim>\<open>ArrayBase(Element * data, CorePtr const & core)\<close> copies the
  pointer, which counts one more reference on the Core. \<^verbatim>\<open>ArrayAccess::construct\<close> and
  the constructors of \<^verbatim>\<open>Array\<close> and \<^verbatim>\<open>ArrayRef\<close> hand their two arguments to it.
\<close>

definition construct :: "heap \<Rightarrow> pointer \<Rightarrow> ref \<Rightarrow> error + ArrayBase \<times> heap" where
  "construct h d p = and_then (Core_add_ref h p) (\<lambda>h'. Inr (\<lparr>data = d, core = p\<rparr>, h'))"

text \<open>
  A view built from the temporary \<^verbatim>\<open>Ptr\<close> that a factory returned: the constructor
  counts a second reference and the temporary releases one at the end of the expression,
  so the new Core is left with the count 1 it was created with.
\<close>

definition construct_from_new :: "pointer \<Rightarrow> ref \<times> heap \<Rightarrow> error + ArrayBase \<times> heap" where
  "construct_from_new d r = Inr (\<lparr>data = d, core = fst r\<rparr>, snd r)"

text \<open>
  Modelled from the spec: the default constructor \<^verbatim>\<open>Array<T,N,C>()\<close> (\<^verbatim>\<open>Array.h\<close> is not
  among the sources). The spec describes the empty view as a null data pointer with a
  zero, default Core; \<^verbatim>\<open>Core::create()\<close> with its default null Manager builds that Core.
\<close>

definition Array_default :: "nat \<Rightarrow> heap \<Rightarrow> error + ArrayBase \<times> heap" where
  "Array_default N h = and_then (create_zero N h None) (construct_from_new 0)"

text \<open>
  Modelled from the spec: \<^verbatim>\<open>Traits::makeReference\<close> (\<^verbatim>\<open>ArrayTraits.h\<close> is not among the
  sources). For a rank above 1 the spec has a sub-view of rank N-1 on the same Core; for
  rank 1 the \<^verbatim>\<open>Reference\<close> is the element at the pointer.
\<close>

datatype Reference = SubArray ArrayBase | ElementAt pointer

definition makeReference :: "nat \<Rightarrow> heap \<Rightarrow> pointer \<Rightarrow> ref \<Rightarrow> error + Reference \<times> heap" where
  "makeReference N h d p =
     (if N = 0 then Inl StaticAssert
      else if N = 1 then Inr (ElementAt d, h)
      else and_then (construct h d p) (\<lambda>r. Inr (SubArray (fst r), snd r)))"

text \<open>\<^verbatim>\<open>operator[](int n)\<close>: \<^verbatim>\<open>makeReference(_data + n * getStride<0>(), _core)\<close>.\<close>

definition subscript :: "Element \<Rightarrow> nat \<Rightarrow> heap \<Rightarrow> ArrayBase \<Rightarrow> cint \<Rightarrow> error + Reference \<times> heap" where
  "subscript T N h a n =
     and_then (getStride N 0 h a) (\<lambda>stride0.
     makeReference N h (ptr_add T (data a) (n * stride0)) (core a))"

text \<open>
  \<^verbatim>\<open>operator[](Index const & i)\<close>: the element at \<^verbatim>\<open>_data + _core->computeOffset(i)\<close>;
  an \<^verbatim>\<open>Index\<close> is a \<^verbatim>\<open>Vector<int,N>\<close>.
\<close>

definition element :: "Element \<Rightarrow> nat \<Rightarrow> heap \<Rightarrow> ArrayBase \<Rightarrow> cint list \<Rightarrow> error + pointer" where
  "element T N h a i =
     (if length i \<noteq> N then Inl StaticAssert
      else
        and_then (core_at N h (core a)) (\<lambda>c.
        and_then (computeOffset c i) (\<lambda>offset.
        Inr (ptr_add T (data a) offset))))"

text \<open>\<^verbatim>\<open>std::swap(v[i], v[j])\<close> on a Vector.\<close>

definition swap :: "'a list \<Rightarrow> int \<Rightarrow> int \<Rightarrow> error + 'a list" where
  "swap v i j =
     and_then (at v i) (\<lambda>x.
     and_then (at v j) (\<lambda>y.
     and_then (put v i y) (\<lambda>v'. put v' j x)))"

text \<open>
  The loop of \<^verbatim>\<open>transpose()\<close>:
  \<^verbatim>\<open>for (int n=0; n < ND::value / 2; ++n) { swap(shape[n], shape[ND-n-1]); swap(strides[n], strides[ND-n-1]); }\<close>
\<close>

function transpose_loop :: "nat \<Rightarrow> nat \<Rightarrow> cint list \<Rightarrow> cint list \<Rightarrow> error + cint list \<times> cint list" where
  "transpose_loop N n shape strides =
     (if n < N div 2 then
        and_then (swap shape (int n) (int N - int n - 1)) (\<lambda>shape'.
        and_then (swap strides (int n) (int N - int n - 1)) (\<lambda>strides'.
        transpose_loop N (Suc n) shape' strides'))
      else Inr (shape, strides))"
  by pat_completeness auto
termination
  by (relation "measure (\<lambda>(N, n, shape, strides). N div 2 - n)") auto

declare transpose_loop.simps [simp del]

definition ArrayBase_transpose :: "nat \<Rightarrow> heap \<Rightarrow> ArrayBase \<Rightarrow> error + ArrayBase \<times> heap" where
  "ArrayBase_transpose N h a =
     and_then (getShape N h a) (\<lambda>shape.
     and_then (getStrides N h a) (\<lambda>strides.
     and_then (transpose_loop N 0 shape strides) (\<lambda>r.
     and_then (getManager N h a) (\<lambda>manager.
     and_then (create N h (fst r) (snd r) manager) (construct_from_new (getData a))))))"

section \<open>Casts\<close>

text \<open>\<^verbatim>\<open>static_dimension_cast<C_>\<close>: a view of the same data on the same Core.\<close>

definition static_dimension_cast :: "heap \<Rightarrow> ArrayBase \<Rightarrow> error + ArrayBase \<times> heap" where
  "static_dimension_cast h array = construct h (getData array) (core array)"

text \<open>
  The two loops of \<^verbatim>\<open>dynamic_dimension_cast<C_>\<close>; the result is \<open>False\<close> where the
  C++ returns the empty \<^verbatim>\<open>Array<T,N,C_>()\<close> from inside the loop.
  \<^verbatim>\<open>for (int i=1; i <= C_; ++i) { if (strides[N-i] != n) return ...; n *= shape[N-i]; }\<close>
  \<^verbatim>\<open>for (int i=0; i < -C_; ++i) { if (strides[i] != n) return ...; n *= strides[i]; }\<close>
\<close>

function trailing_loop :: "nat \<Rightarrow> int \<Rightarrow> cint list \<Rightarrow> cint list \<Rightarrow> int \<Rightarrow> cint \<Rightarrow> error + bool" where
  "trailing_loop N C shape strides i n =
     (if i \<le> C then
        and_then (at strides (int N - i)) (\<lambda>stride.
        if stride \<noteq> n then Inr False
        else and_then (at shape (int N - i)) (\<lambda>sz.
             trailing_loop N C shape strides (i + 1) (n * sz)))
      else Inr True)"
  by pat_completeness auto
termination
  by (relation "measure (\<lambda>(N, C, shape, strides, i, n). nat (C + 1 - i))") auto

declare trailing_loop.simps [simp del]

function leading_loop :: "int \<Rightarrow> cint list \<Rightarrow> int \<Rightarrow> cint \<Rightarrow> error + bool" where
  "leading_loop C strides i n =
     (if i < - C then
        and_then (at strides i) (\<lambda>stride.
        if stride \<noteq> n then Inr False
        else and_then (at strides i) (\<lambda>stride'.
             leading_loop C strides (i + 1) (n * stride')))
      else Inr True)"
  by pat_completeness auto
termination
  by (relation "measure (\<lambda>(C, strides, i, n). nat (- C - i))") auto

declare leading_loop.simps [simp del]

definition dynamic_dimension_cast :: "int \<Rightarrow> nat \<Rightarrow> heap \<Rightarrow> ArrayBase \<Rightarrow> error + ArrayBase \<times> heap" where
  "dynamic_dimension_cast C N h array =
     and_then (getShape N h array) (\<lambda>shape.
     and_then (getStrides N h array) (\<lambda>strides.
     and_then (if C \<ge> 0 then trailing_loop N C shape strides 1 1
               else leading_loop C strides 0 1) (\<lambda>ok.
     if ok then static_dimension_cast h array else Array_default N h)))"

text \<open>
  \<^verbatim>\<open>ComplexExtractor::apply(array, offset)\<close>. The static assertion admits complex element
  types only; the result views the real type, at
  \<^verbatim>\<open>reinterpret_cast<RealElement*>(array.getData()) + offset\<close>, on a new Core made from
  \<^verbatim>\<open>array.getShape()\<close> and \<^verbatim>\<open>array.getStrides() * 2\<close>.
\<close>

definition ComplexExtractor_apply :: "Element \<Rightarrow> nat \<Rightarrow> heap \<Rightarrow> ArrayBase \<Rightarrow> cint \<Rightarrow> error + ArrayBase \<times> heap" where
  "ComplexExtractor_apply T N h array offset =
     (case T of
        Arithmetic n \<Rightarrow> Inl StaticAssert
      | Complex n \<Rightarrow>
          and_then (getShape N h array) (\<lambda>shape.
          and_then (getStrides N h array) (\<lambda>strides.
          and_then (getManager N h array) (\<lambda>manager.
          and_then (create N h shape (times_scalar strides 2) manager)
            (construct_from_new (ptr_add (Arithmetic n) (getData array) offset))))))"

definition getReal :: "Element \<Rightarrow> nat \<Rightarrow> heap \<Rightarrow> ArrayBase \<Rightarrow> error + ArrayBase \<times> heap" where
  "getReal T N h array = ComplexExtractor_apply T N h array 0"

definition getImag :: "Element \<Rightarrow> nat \<Rightarrow> heap \<Rightarrow> ArrayBase \<Rightarrow> error + ArrayBase \<times> heap" where
  "getImag T N h array = ComplexExtractor_apply T N h array 1"

text \<open>
  \<^verbatim>\<open>flatten<Nf>\<close> on an \<^verbatim>\<open>Array<T,N,C>\<close>, enabled when \<^verbatim>\<open>C+Nf-N >= 1\<close>. Its loop is
  \<^verbatim>\<open>for (int n=Nf; n<N; ++n) newShape[Nf-1] *= oldShape[n];\<close>
\<close>

function flatten_loop :: "nat \<Rightarrow> nat \<Rightarrow> nat \<Rightarrow> cint list \<Rightarrow> cint list \<Rightarrow> error + cint list" where
  "flatten_loop Nf N n oldShape newShape =
     (if n < N then
        and_then (at newShape (int Nf - 1)) (\<lambda>x.
        and_then (at oldShape (int n)) (\<lambda>y.
        and_then (put newShape (int Nf - 1) (x * y)) (\<lambda>newShape'.
        flatten_loop Nf N (Suc n) oldShape newShape')))
      else Inr newShape)"
  by pat_completeness auto
termination
  by (relation "measure (\<lambda>(Nf, N, n, oldShape, newShape). N - n)") auto

declare flatten_loop.simps [simp del]

definition flatten :: "nat \<Rightarrow> nat \<Rightarrow> int \<Rightarrow> heap \<Rightarrow> ArrayBase \<Rightarrow> error + ArrayBase \<times> heap" where
  "flatten Nf N C h input =
     (if \<not> (C + int Nf - int N \<ge> 1) then Inl StaticAssert
      else
        and_then (getShape N h input) (\<lambda>oldShape.
        and_then (first Nf oldShape) (\<lambda>newShape0.
        and_then (flatten_loop Nf N Nf oldShape newShape0) (\<lambda>newShape.
        and_then (getStrides N h input) (\<lambda>strides.
        and_then (first Nf strides) (\<lambda>newStrides0.
        and_then (put newStrides0 (int Nf - 1) 1) (\<lambda>newStrides.
        and_then (getManager N h input) (\<lambda>manager.
        and_then (create Nf h newShape newStrides manager)
          (construct_from_new (getData input))))))))))"

section \<open>Well-formed views and the example arrays\<close>

text \<open>
  A Manager pointer is live in a store when it is null or the store holds a Manager at
  its address.
\<close>

definition manager_live :: "heap \<Rightarrow> ref option \<Rightarrow> bool" where
  "manager_live h manager = (case manager of None \<Rightarrow> True | Some m \<Rightarrow> managers h m \<noteq> None)"

text \<open>
  A view of rank \<open>N\<close> is valid in a store when its \<^verbatim>\<open>_core\<close> reaches a \<^verbatim>\<open>Core<N>\<close>
  there whose Manager pointer is live.
\<close>

definition valid :: "nat \<Rightarrow> heap \<Rightarrow> ArrayBase \<Rightarrow> bool" where
  "valid N h a =
     (case core_at N h (core a) of
        Inl e \<Rightarrow> False
      | Inr c \<Rightarrow> manager_live h (Core_getManager c))"

text \<open>
  The list with its first \<open>n\<close> and its last \<open>n\<close> entries mirrored: the state of a vector
  after \<open>n\<close> rounds of the loop of \<^verbatim>\<open>transpose()\<close>.
\<close>

definition mirrored :: "nat \<Rightarrow> 'a list \<Rightarrow> 'a list" where
  "mirrored n xs =
     map (\<lambda>i. if i < n \<or> length xs - n \<le> i then xs ! (length xs - 1 - i) else xs ! i)
       [0..<length xs]"

text \<open>
  A row-major array of shape (2,3), hence strides (3,1), over a Manager that only its
  Core refers to; its elements are doubles starting at address 4096.
\<close>

definition example_heap :: heap where
  "example_heap =
     \<lparr>cores = [0 \<mapsto> CoreN 2 3 (CoreN 3 1 (Core0 (Some 0) 1))],
      managers = [0 \<mapsto> \<lparr>Manager_getRC = 1, Manager_isUnique = True\<rparr>],
      fresh = 1\<rparr>"

definition example_array :: ArrayBase where
  "example_array = \<lparr>data = 4096, core = 0\<rparr>"

text \<open>The same view when its Core is column-major: shape (2,3), strides (1,2).\<close>

definition column_major_heap :: heap where
  "column_major_heap =
     \<lparr>cores = [0 \<mapsto> CoreN 2 1 (CoreN 3 2 (Core0 (Some 0) 1))],
      managers = [0 \<mapsto> \<lparr>Manager_getRC = 1, Manager_isUnique = True\<rparr>],
      fresh = 1\<rparr>"


section \<open>Properties of Core\<close>


lemma and_then_Inr [simp]: "and_then (Inr x) f = f x"
  by (simp add: and_then_def)

lemma and_then_Inl [simp]: "and_then (Inl e) f = Inl e"
  by (simp add: and_then_def)

lemma length_sizes [simp]: "length (sizes c) = ND c"
  by (induction c) simp_all

lemma length_strides_of [simp]: "length (strides_of c) = ND c"
  by (induction c) simp_all

lemma at_in_range: "i < length v \<Longrightarrow> at v (int i) = Inr (v ! i)"
  by (simp add: at_def)

lemma put_in_range: "i < length v \<Longrightarrow> put v (int i) x = Inr (v[i := x])"
  by (simp add: put_def)

lemma computeOffset_suffix:
  "ND c \<le> length index \<Longrightarrow>
   computeOffset c index =
     Inr (sum_list (map2 (*) (drop (length index - ND c) index) (strides_of c)))"
proof (induction c)
  case (Core0 manager rc)
  then show ?case by simp
next
  case (CoreN sz stride super)
  let ?k = "length index - Suc (ND super)"
  from CoreN.prems have k: "?k < length index" and le: "ND super \<le> length index"
    by simp_all
  have idx: "int (length index) - int (Suc (ND super)) = int ?k"
    using CoreN.prems by simp
  have dr: "drop ?k index = index ! ?k # drop (length index - ND super) index"
  proof -
    have "drop ?k index = index ! ?k # drop (Suc ?k) index"
      using k by (simp add: Cons_nth_drop_Suc)
    moreover have "Suc ?k = length index - ND super"
      using CoreN.prems by simp
    ultimately show ?thesis by simp
  qed
  show ?case
    using CoreN.IH [OF le] k
    by (simp only: computeOffset.simps idx at_in_range and_then_Inr dr strides_of.simps ND.simps)
       simp
qed

section \<open>Shape, strides and constructors\<close>

lemma fillShape_ok:
  "ND c \<le> length v \<Longrightarrow> fillShape c v = Inr (take (length v - ND c) v @ sizes c)"
proof (induction c arbitrary: v)
  case (Core0 manager rc)
  then show ?case by simp
next
  case (CoreN sz stride super)
  let ?k = "length v - Suc (ND super)"
  from CoreN.prems have k: "?k < length v" by simp
  have idx: "int (length v) - int (Suc (ND super)) = int ?k"
    using CoreN.prems by simp
  have sk: "length v - ND super = Suc ?k"
    using CoreN.prems by simp
  have "fillShape (CoreN sz stride super) v = fillShape super (v[?k := sz])"
    using k by (simp only: fillShape.simps idx put_in_range and_then_Inr)
  also have "\<dots> = Inr (take (length v - ND super) (v[?k := sz]) @ sizes super)"
    using CoreN.IH [of "v[?k := sz]"] CoreN.prems by simp
  also have "take (length v - ND super) (v[?k := sz]) = take ?k v @ [sz]"
    using k by (simp add: sk take_Suc_conv_app_nth)
  finally show ?case by simp
qed

lemma fillStrides_ok:
  "ND c \<le> length v \<Longrightarrow> fillStrides c v = Inr (take (length v - ND c) v @ strides_of c)"
proof (induction c arbitrary: v)
  case (Core0 manager rc)
  then show ?case by simp
next
  case (CoreN sz stride super)
  let ?k = "length v - Suc (ND super)"
  from CoreN.prems have k: "?k < length v" by simp
  have idx: "int (length v) - int (Suc (ND super)) = int ?k"
    using CoreN.prems by simp
  have sk: "length v - ND super = Suc ?k"
    using CoreN.prems by simp
  have "fillStrides (CoreN sz stride super) v = fillStrides super (v[?k := stride])"
    using k by (simp only: fillStrides.simps idx put_in_range and_then_Inr)
  also have "\<dots> = Inr (take (length v - ND super) (v[?k := stride]) @ strides_of super)"
    using CoreN.IH [of "v[?k := stride]"] CoreN.prems by simp
  also have "take (length v - ND super) (v[?k := stride]) = take ?k v @ [stride]"
    using k by (simp add: sk take_Suc_conv_app_nth)
  finally show ?case by simp
qed

lemma getDimension_ok:
  "P \<le> ND c \<Longrightarrow>
   \<exists>c'. getDimension P c = Inr c' \<and> ND c' = ND c - P \<and> sizes c' = drop P (sizes c)
        \<and> strides_of c' = drop P (strides_of c)
        \<and> Core_getManager c' = Core_getManager c \<and> getRC c' = getRC c"
  by (induction P c rule: getDimension.induct) simp_all

lemma Core_getNumElements_prod: "Core_getNumElements c = prod_list (sizes c)"
  by (induction c) simp_all

lemma Core_explicit_ok:
  "N \<le> length shape \<Longrightarrow> length strides = length shape \<Longrightarrow>
   \<exists>c. Core_explicit N shape strides manager = Inr c \<and> ND c = N
       \<and> sizes c = drop (length shape - N) shape
       \<and> strides_of c = drop (length shape - N) strides
       \<and> Core_getManager c = manager \<and> getRC c = 1"
proof (induction N)
  case 0
  then show ?case by simp
next
  case (Suc N)
  let ?k = "length shape - Suc N"
  from Suc.prems have k: "?k < length shape" "?k < length strides" by simp_all
  have idx: "int (length shape) - int (Suc N) = int ?k"
    using Suc.prems by simp
  have sk: "length shape - N = Suc ?k"
    using Suc.prems by simp
  from Suc obtain c where c: "Core_explicit N shape strides manager = Inr c" "ND c = N"
    "sizes c = drop (length shape - N) shape" "strides_of c = drop (length shape - N) strides"
    "Core_getManager c = manager" "getRC c = 1"
    by auto
  have "Core_explicit (Suc N) shape strides manager = Inr (CoreN (shape ! ?k) (strides ! ?k) c)"
    using k c(1) by (simp only: Core_explicit.simps idx at_in_range and_then_Inr)
  then show ?case
    using c k by (simp add: sk Cons_nth_drop_Suc)
qed

text \<open>
  C2. For every Core of rank N and every index vector of rank N, computeOffset(index)
  is the sum over the dimensions d of index[d] * stride[d], where stride is the vector
  that fillStrides writes; the rank-0 base of the recursion contributes 0.
\<close>

theorem computeOffset_is_sum:
  "length index = ND c \<Longrightarrow>
   (\<exists>strides. fillStrides c (replicate (ND c) 0) = Inr strides
      \<and> computeOffset c index = Inr (\<Sum>d < ND c. index ! d * strides ! d))
   \<and> computeOffset (Core0 manager rc) index0 = Inr 0"
proof -
  assume len: "length index = ND c"
  have "computeOffset c index = Inr (sum_list (map2 (*) index (strides_of c)))"
    using computeOffset_suffix [of c index] len by simp
  also have "sum_list (map2 (*) index (strides_of c))
             = (\<Sum>d < ND c. index ! d * strides_of c ! d)"
    using len by (simp add: sum_list_sum_nth atLeast0LessThan)
  finally have "computeOffset c index = Inr (\<Sum>d < ND c. index ! d * strides_of c ! d)" .
  moreover have "fillStrides c (replicate (ND c) 0) = Inr (strides_of c)"
    using fillStrides_ok [of c "replicate (ND c) 0"] by simp
  ultimately show ?thesis by simp
qed

theorem computeOffset_is_sum_witness:
  "length [1, 2 :: cint] = ND (CoreN 2 3 (CoreN 3 1 (Core0 None 1)))
   \<and> computeOffset (CoreN 2 3 (CoreN 3 1 (Core0 None 1))) [1, 2] = Inr 5"
  using computeOffset_is_sum [of "[1, 2]" "CoreN 2 3 (CoreN 3 1 (Core0 None 1))" None 1 "[]"]
  by (simp add: lessThan_Suc numeral_2_eq_2 put_def)


section \<open>Views in the store\<close>

lemma core_at_ND: "core_at N h p = Inr c \<Longrightarrow> ND c = N"
proof -
  assume a: "core_at N h p = Inr c"
  then obtain c0 where c0: "cores h p = Some c0" "N \<le> ND c0" "getDimension (ND c0 - N) c0 = Inr c"
    by (auto simp: core_at_def split: option.splits if_splits)
  from getDimension_ok [of "ND c0 - N" c0] c0 show ?thesis by auto
qed

lemma validE:
  assumes "valid N h a"
  obtains c where "core_at N h (core a) = Inr c" "ND c = N" "manager_live h (Core_getManager c)"
  using assms core_at_ND by (auto simp: valid_def split: sum.splits)

lemma getShape_sizes: "core_at N h (core a) = Inr c \<Longrightarrow> getShape N h a = Inr (sizes c)"
  using core_at_ND [of N h "core a" c] fillShape_ok [of c "replicate N 0"]
  by (simp add: getShape_def)

lemma getStrides_strides: "core_at N h (core a) = Inr c \<Longrightarrow> getStrides N h a = Inr (strides_of c)"
  using core_at_ND [of N h "core a" c] fillStrides_ok [of c "replicate N 0"]
  by (simp add: getStrides_def)

lemma getManager_core: "core_at N h (core a) = Inr c \<Longrightarrow> getManager N h a = Inr (Core_getManager c)"
  by (simp add: getManager_def)

lemma getNumElements_core:
  "core_at N h (core a) = Inr c \<Longrightarrow> getNumElements N h a = Inr (prod_list (sizes c))"
  by (simp add: getNumElements_def Core_getNumElements_prod)

lemma Manager_add_ref_ok:
  "manager_live h manager \<Longrightarrow>
   \<exists>h'. Manager_add_ref h manager = Inr h' \<and> cores h' = cores h \<and> fresh h' = fresh h
        \<and> (\<forall>m. manager_live h' m = manager_live h m)"
  by (auto simp: manager_live_def Manager_add_ref_def split: option.splits)

lemma core_at_new:
  "ND c = N \<Longrightarrow> core_at N (snd (new_Core h c)) (fst (new_Core h c)) = Inr c"
  by (simp add: core_at_def new_Core_def)

lemma manager_live_new: "manager_live (snd (new_Core h c)) m = manager_live h m"
  by (simp add: manager_live_def new_Core_def split: option.splits)

lemma create_ok:
  assumes "length shape = N" "length strides = N" "manager_live h manager"
  shows "\<exists>p h' c. create N h shape strides manager = Inr (p, h') \<and> p = fresh h
           \<and> core_at N h' p = Inr c \<and> sizes c = shape \<and> strides_of c = strides
           \<and> Core_getManager c = manager \<and> getRC c = 1
           \<and> (\<forall>m. manager_live h' m = manager_live h m)"
proof -
  from Core_explicit_ok [of N shape strides manager] assms
  obtain c where c: "Core_explicit N shape strides manager = Inr c" "ND c = N"
    "sizes c = shape" "strides_of c = strides" "Core_getManager c = manager" "getRC c = 1"
    by auto
  from Manager_add_ref_ok [OF assms(3)]
  obtain hm where hm: "Manager_add_ref h manager = Inr hm" "cores hm = cores h"
    "fresh hm = fresh h" "\<forall>m. manager_live hm m = manager_live h m"
    by auto
  have cr: "create N h shape strides manager = Inr (new_Core hm c)"
    using assms c(1) hm(1) by (simp add: create_def)
  have "fst (new_Core hm c) = fresh h"
    using hm(3) by (simp add: new_Core_def)
  moreover have "core_at N (snd (new_Core hm c)) (fst (new_Core hm c)) = Inr c"
    using c(2) by (rule core_at_new)
  moreover have "\<forall>m. manager_live (snd (new_Core hm c)) m = manager_live h m"
    using hm(4) by (simp add: manager_live_new)
  ultimately show ?thesis
    using cr c by (cases "new_Core hm c") auto
qed

section \<open>The loop of transpose\<close>

lemma length_mirrored [simp]: "length (mirrored n xs) = length xs"
  by (simp add: mirrored_def)

lemma mirrored_0: "mirrored 0 xs = xs"
  by (rule nth_equalityI) (simp_all add: mirrored_def)

lemma mirrored_half: "mirrored (length xs div 2) xs = rev xs"
proof (rule nth_equalityI)
  show "length (mirrored (length xs div 2) xs) = length (rev xs)" by simp
next
  fix i assume "i < length (mirrored (length xs div 2) xs)"
  then have i: "i < length xs" by simp
  have "\<not> (i < length xs div 2 \<or> length xs - length xs div 2 \<le> i) \<Longrightarrow> length xs - 1 - i = i"
    using i by arith
  then show "mirrored (length xs div 2) xs ! i = rev xs ! i"
    using i by (auto simp: mirrored_def rev_nth Suc_diff_Suc)
qed

lemma swap_in_range:
  "i < length v \<Longrightarrow> j < length v \<Longrightarrow> swap v (int i) (int j) = Inr (v[i := v ! j, j := v ! i])"
  by (simp add: swap_def at_in_range put_in_range)

lemma swap_mirrored:
  assumes "n < length xs div 2"
  shows "swap (mirrored n xs) (int n) (int (length xs) - int n - 1) = Inr (mirrored (Suc n) xs)"
proof -
  let ?N = "length xs"
  let ?j = "?N - 1 - n"
  from assms have n: "n < ?N" and j: "?j < ?N" and nj: "n < ?j" by arith+
  have idx: "int ?N - int n - 1 = int ?j" using n by simp
  have "(mirrored n xs)[n := mirrored n xs ! ?j, ?j := mirrored n xs ! n] = mirrored (Suc n) xs"
  proof (rule nth_equalityI)
    show "length ((mirrored n xs)[n := mirrored n xs ! ?j, ?j := mirrored n xs ! n])
          = length (mirrored (Suc n) xs)" by simp
  next
    fix i assume "i < length ((mirrored n xs)[n := mirrored n xs ! ?j, ?j := mirrored n xs ! n])"
    then have i: "i < ?N" by simp
    have a: "mirrored n xs ! ?j = xs ! ?j"
      using j nj n by (auto simp: mirrored_def)
    have b: "mirrored n xs ! n = xs ! n"
      using n nj by (auto simp: mirrored_def)
    have c: "?N - 1 - ?j = n" using n by arith
    show "(mirrored n xs)[n := mirrored n xs ! ?j, ?j := mirrored n xs ! n] ! i
          = mirrored (Suc n) xs ! i"
    proof (cases "i = n")
      case True
      then show ?thesis using n nj a by (simp add: mirrored_def)
    next
      case False
      note ne = this
      show ?thesis
      proof (cases "i = ?j")
        case True
        then show ?thesis using j b c n by (simp add: mirrored_def)
      next
        case False
        have "(i < Suc n \<or> ?N - Suc n \<le> i) = (i < n \<or> ?N - n \<le> i)"
          using ne False i n by arith
        then show ?thesis using ne False i by (simp add: mirrored_def)
      qed
    qed
  qed
  then show ?thesis
    using swap_in_range [of n "mirrored n xs" ?j] n j by (simp add: idx)
qed

lemma transpose_loop_mirrored:
  "length shape = N \<Longrightarrow> length strides = N \<Longrightarrow> n \<le> N div 2 \<Longrightarrow>
   transpose_loop N n (mirrored n shape) (mirrored n strides) = Inr (rev shape, rev strides)"
proof (induction "N div 2 - n" arbitrary: n)
  case 0
  then have "n = N div 2" by simp
  then show ?case
    using 0 mirrored_half [of shape] mirrored_half [of strides]
    by (subst transpose_loop.simps) simp
next
  case (Suc k)
  then have lt: "n < N div 2" by simp
  have s1: "swap (mirrored n shape) (int n) (int N - int n - 1) = Inr (mirrored (Suc n) shape)"
    using swap_mirrored [of n shape] lt Suc.prems by simp
  have s2: "swap (mirrored n strides) (int n) (int N - int n - 1) = Inr (mirrored (Suc n) strides)"
    using swap_mirrored [of n strides] lt Suc.prems by simp
  have "transpose_loop N (Suc n) (mirrored (Suc n) shape) (mirrored (Suc n) strides)
        = Inr (rev shape, rev strides)"
    using Suc.hyps(1) [of "Suc n"] Suc.hyps(2) Suc.prems lt by simp
  then show ?case
    using lt s1 s2 by (subst transpose_loop.simps) simp
qed

lemma transpose_loop_rev:
  "length shape = N \<Longrightarrow> length strides = N \<Longrightarrow>
   transpose_loop N 0 shape strides = Inr (rev shape, rev strides)"
  using transpose_loop_mirrored [of shape N strides 0] by (simp add: mirrored_0)


section \<open>Indexing and transposition\<close>

lemma add_ref_facts [simp]:
  "ND (add_ref c) = ND c" "sizes (add_ref c) = sizes c" "strides_of (add_ref c) = strides_of c"
  "Core_getManager (add_ref c) = Core_getManager c" "getRC (add_ref c) = getRC c + 1"
  by (induction c) simp_all

lemma getDimension_add_ref:
  "getDimension P c = Inr c' \<Longrightarrow> getDimension P (add_ref c) = Inr (add_ref c')"
  by (induction P c rule: getDimension.induct) auto

lemma getDimension_Suc:
  "getDimension P c = Inr (CoreN sz stride super) \<Longrightarrow> getDimension (Suc P) c = Inr super"
  by (induction P c rule: getDimension.induct) auto

lemma core_at_base:
  assumes "core_at (Suc N) h p = Inr (CoreN sz stride super)"
  shows "core_at N h p = Inr super"
proof -
  from assms obtain c0 where c0: "cores h p = Some c0" "Suc N \<le> ND c0"
    "getDimension (ND c0 - Suc N) c0 = Inr (CoreN sz stride super)"
    by (auto simp: core_at_def split: option.splits if_splits)
  have "ND c0 - N = Suc (ND c0 - Suc N)" using c0(2) by simp
  then show ?thesis
    using c0 getDimension_Suc [OF c0(3)] by (simp add: core_at_def)
qed

lemma core_at_add_ref:
  assumes "core_at N h p = Inr c" "Core_add_ref h p = Inr h'"
  shows "core_at N h' p = Inr (add_ref c)"
proof -
  from assms(1) obtain c0 where c0: "cores h p = Some c0" "N \<le> ND c0"
    "getDimension (ND c0 - N) c0 = Inr c"
    by (auto simp: core_at_def split: option.splits if_splits)
  from assms(2) c0(1) have h': "h' = h\<lparr>cores := (cores h)(p \<mapsto> add_ref c0)\<rparr>"
    by (simp add: Core_add_ref_def)
  show ?thesis
    using c0(2) getDimension_add_ref [OF c0(3)] by (simp add: h' core_at_def)
qed

lemma Core_add_ref_ok:
  "core_at N h p = Inr c \<Longrightarrow>
   \<exists>h'. Core_add_ref h p = Inr h' \<and> managers h' = managers h \<and> fresh h' = fresh h"
  by (auto simp: core_at_def Core_add_ref_def split: option.splits)

lemma subscript_subarray:
  assumes c: "core_at N h (core a) = Inr c" and N: "1 < N"
  shows "\<exists>h' sub. subscript T N h a n
             = Inr (SubArray \<lparr>data = ptr_add T (data a) (n * Core_getStride c), core = core a\<rparr>, h')
          \<and> core_at (N - 1) h' (core a) = Inr sub
          \<and> sizes sub = tl (sizes c) \<and> strides_of sub = tl (strides_of c)
          \<and> Core_getManager sub = Core_getManager c \<and> getRC sub = getRC c + 1
          \<and> managers h' = managers h"
proof -
  from core_at_ND [OF c] N obtain sz stride super where cn: "c = CoreN sz stride super"
    by (cases c) auto
  from Core_add_ref_ok [OF c] obtain h' where h': "Core_add_ref h (core a) = Inr h'"
    "managers h' = managers h" by auto
  have st: "getStride N 0 h a = Inr (Core_getStride c)"
    using c by (simp add: getStride_def)
  have sub: "subscript T N h a n
             = Inr (SubArray \<lparr>data = ptr_add T (data a) (n * Core_getStride c), core = core a\<rparr>, h')"
    using N h'(1) by (simp add: subscript_def st makeReference_def construct_def)
  obtain M where M: "N = Suc M" using N by (cases N) auto
  have "core_at M h (core a) = Inr super"
    using c core_at_base [of M h "core a" sz stride super] by (simp add: cn M)
  then have "core_at (N - 1) h' (core a) = Inr (add_ref super)"
    using core_at_add_ref [OF _ h'(1)] by (simp add: M)
  then show ?thesis
    using sub h'(2) by (simp add: cn)
qed

lemma subscript_element:
  assumes c: "core_at 1 h (core a) = Inr c"
  shows "subscript T 1 h a n = Inr (ElementAt (ptr_add T (data a) (n * Core_getStride c)), h)"
proof -
  have st: "getStride 1 0 h a = Inr (Core_getStride c)"
    using c by (simp add: getStride_def)
  show ?thesis
    unfolding subscript_def st makeReference_def by simp
qed

lemma transpose_ok:
  assumes c: "core_at N h (core a) = Inr c" and m: "manager_live h (Core_getManager c)"
  shows "\<exists>h' c'. ArrayBase_transpose N h a = Inr (\<lparr>data = data a, core = fresh h\<rparr>, h')
          \<and> core_at N h' (fresh h) = Inr c'
          \<and> sizes c' = rev (sizes c) \<and> strides_of c' = rev (strides_of c)
          \<and> Core_getManager c' = Core_getManager c \<and> getRC c' = 1
          \<and> manager_live h' (Core_getManager c')"
proof -
  have nd: "ND c = N" using c by (rule core_at_ND)
  have loop: "transpose_loop N 0 (sizes c) (strides_of c) = Inr (rev (sizes c), rev (strides_of c))"
    using nd by (simp add: transpose_loop_rev)
  from create_ok [of "rev (sizes c)" N "rev (strides_of c)" h "Core_getManager c"] nd m
  obtain h' c' where cr:
    "create N h (rev (sizes c)) (rev (strides_of c)) (Core_getManager c) = Inr (fresh h, h')"
    "core_at N h' (fresh h) = Inr c'" "sizes c' = rev (sizes c)"
    "strides_of c' = rev (strides_of c)" "Core_getManager c' = Core_getManager c"
    "getRC c' = 1" "\<forall>m. manager_live h' m = manager_live h m"
    by auto
  have "ArrayBase_transpose N h a = Inr (\<lparr>data = data a, core = fresh h\<rparr>, h')"
    by (simp add: ArrayBase_transpose_def getShape_sizes [OF c] getStrides_strides [OF c]
        getManager_core [OF c] loop cr(1) construct_from_new_def getData_def)
  then show ?thesis
    using cr m by auto
qed


lemma Core_getStride_hd: "0 < ND c \<Longrightarrow> Core_getStride c = hd (strides_of c)"
  by (cases c) simp_all

lemma valid_example: "valid 2 example_heap example_array"
  by (simp add: valid_def core_at_def example_heap_def example_array_def manager_live_def
      numeral_2_eq_2)

lemma getShape_example: "getShape 2 example_heap example_array = Inr [2, 3]"
  by (simp add: getShape_def core_at_def example_heap_def example_array_def put_def
      numeral_2_eq_2)

lemma getStrides_example: "getStrides 2 example_heap example_array = Inr [3, 1]"
  by (simp add: getStrides_def core_at_def example_heap_def example_array_def put_def
      numeral_2_eq_2)

text \<open>
  C3. For every valid array view, transpose() returns a view of the same data whose
  shape and strides are the reversals of the input's, on a Core over the same Manager.
  For a view of shape (2,3) with strides (3,1) the transposed view has shape (3,2) and
  strides (1,3), and element (1,2) of the original is the element that
  \<^verbatim>\<open>transpose()[2][1]\<close> refers to.
\<close>

theorem transpose_reverses:
  assumes "valid N h a"
  shows "\<exists>shape strides manager t h'.
           getShape N h a = Inr shape \<and> getStrides N h a = Inr strides
         \<and> getManager N h a = Inr manager
         \<and> ArrayBase_transpose N h a = Inr (t, h')
         \<and> getShape N h' t = Inr (rev shape) \<and> getStrides N h' t = Inr (rev strides)
         \<and> getManager N h' t = Inr manager \<and> getData t = getData a
         \<and> (N = 2 \<and> shape = [2, 3] \<and> strides = [3, 1] \<longrightarrow>
              getShape 2 h' t = Inr [3, 2] \<and> getStrides 2 h' t = Inr [1, 3]
            \<and> (\<exists>row h'' p. subscript T 2 h' t 2 = Inr (SubArray row, h'')
                         \<and> subscript T 1 h'' row 1 = Inr (ElementAt p, h'')
                         \<and> element T 2 h a [1, 2] = Inr p))"
proof -
  from assms obtain c where c: "core_at N h (core a) = Inr c" "ND c = N"
    "manager_live h (Core_getManager c)"
    by (rule validE)
  from transpose_ok [OF c(1) c(3)] obtain h' c' where t:
    "ArrayBase_transpose N h a = Inr (\<lparr>data = data a, core = fresh h\<rparr>, h')"
    "core_at N h' (fresh h) = Inr c'" "sizes c' = rev (sizes c)"
    "strides_of c' = rev (strides_of c)" "Core_getManager c' = Core_getManager c"
    by auto
  let ?t = "\<lparr>data = data a, core = fresh h\<rparr>"
  have ct: "core_at N h' (core ?t) = Inr c'" using t(2) by simp
  have scen: "\<exists>row h'' p. subscript T 2 h' ?t 2 = Inr (SubArray row, h'')
                \<and> subscript T 1 h'' row 1 = Inr (ElementAt p, h'')
                \<and> element T 2 h a [1, 2] = Inr p"
    if N: "N = 2" and sh: "sizes c = [2, 3]" and st: "strides_of c = [3, 1]"
  proof -
    have nd': "ND c' = 2" using core_at_ND [OF t(2)] N by simp
    have st': "Core_getStride c' = 1"
      using Core_getStride_hd [of c'] nd' t(4) st by simp
    from subscript_subarray [of 2 h' ?t c' T 2] ct N
    obtain h'' sub where s:
      "subscript T 2 h' ?t 2
         = Inr (SubArray \<lparr>data = ptr_add T (data ?t) (2 * Core_getStride c'), core = core ?t\<rparr>, h'')"
      "core_at (2 - 1) h'' (core ?t) = Inr sub" "strides_of sub = tl (strides_of c')"
      by auto
    let ?row = "\<lparr>data = ptr_add T (data ?t) (2 * Core_getStride c'), core = core ?t\<rparr>"
    have sub1: "core_at 1 h'' (core ?row) = Inr sub" using s(2) by simp
    have "ND sub = 1" using core_at_ND [OF sub1] .
    then have stsub: "Core_getStride sub = 3"
      using Core_getStride_hd [of sub] s(3) t(4) st by simp
    have e1: "subscript T 1 h'' ?row 1
              = Inr (ElementAt (ptr_add T (data ?row) (1 * Core_getStride sub)), h'')"
      using sub1 by (rule subscript_element)
    have off: "computeOffset c [1, 2] = Inr 5"
      using computeOffset_suffix [of c "[1, 2]"] c(2) N st by simp
    have e2: "element T 2 h a [1, 2] = Inr (ptr_add T (data a) 5)"
      using c(1) N off by (simp add: element_def)
    have "ptr_add T (data ?row) (1 * Core_getStride sub) = ptr_add T (data a) 5"
      by (simp add: ptr_add_def st' stsub algebra_simps)
    then show ?thesis using s(1) e1 e2 by auto
  qed
  have "getShape N h a = Inr (sizes c)" "getStrides N h a = Inr (strides_of c)"
    "getManager N h a = Inr (Core_getManager c)"
    using c(1) by (simp_all add: getShape_sizes getStrides_strides getManager_core)
  moreover have "getShape N h' ?t = Inr (rev (sizes c))"
    "getStrides N h' ?t = Inr (rev (strides_of c))"
    "getManager N h' ?t = Inr (Core_getManager c)"
    using getShape_sizes [OF ct] getStrides_strides [OF ct] getManager_core [OF ct] t
    by simp_all
  moreover have "getData ?t = getData a" by (simp add: getData_def)
  ultimately show ?thesis
    using t(1) scen by (intro exI [of _ "sizes c"] exI [of _ "strides_of c"]
        exI [of _ "Core_getManager c"] exI [of _ ?t] exI [of _ h']) auto
qed

theorem transpose_reverses_witness:
  "valid 2 example_heap example_array
   \<and> (\<exists>t h'. ArrayBase_transpose 2 example_heap example_array = Inr (t, h')
            \<and> getShape 2 h' t = Inr [3, 2] \<and> getStrides 2 h' t = Inr [1, 3]
            \<and> (\<exists>row h'' p. subscript (Arithmetic 8) 2 h' t 2 = Inr (SubArray row, h'')
                   \<and> subscript (Arithmetic 8) 1 h'' row 1 = Inr (ElementAt p, h'')
                   \<and> element (Arithmetic 8) 2 example_heap example_array [1, 2] = Inr p))"
  using transpose_reverses [OF valid_example, of "Arithmetic 8"] valid_example
    getShape_example getStrides_example
  by auto

text \<open>
  C4. For every valid array view, applying transpose() twice returns a view whose shape
  and strides are those of the original view.
\<close>

theorem transpose_twice:
  assumes "valid N h a"
  shows "\<exists>shape strides t h' tt h''.
           getShape N h a = Inr shape \<and> getStrides N h a = Inr strides
         \<and> ArrayBase_transpose N h a = Inr (t, h')
         \<and> ArrayBase_transpose N h' t = Inr (tt, h'')
         \<and> getShape N h'' tt = Inr shape \<and> getStrides N h'' tt = Inr strides"
proof -
  from assms obtain c where c: "core_at N h (core a) = Inr c" "ND c = N"
    "manager_live h (Core_getManager c)"
    by (rule validE)
  from transpose_ok [OF c(1) c(3)] obtain h' c' where t:
    "ArrayBase_transpose N h a = Inr (\<lparr>data = data a, core = fresh h\<rparr>, h')"
    "core_at N h' (fresh h) = Inr c'" "sizes c' = rev (sizes c)"
    "strides_of c' = rev (strides_of c)" "manager_live h' (Core_getManager c')"
    by auto
  let ?t = "\<lparr>data = data a, core = fresh h\<rparr>"
  have ct: "core_at N h' (core ?t) = Inr c'" using t(2) by simp
  from transpose_ok [OF ct t(5)] obtain h'' c'' where tt:
    "ArrayBase_transpose N h' ?t = Inr (\<lparr>data = data ?t, core = fresh h'\<rparr>, h'')"
    "core_at N h'' (fresh h') = Inr c''" "sizes c'' = rev (sizes c')"
    "strides_of c'' = rev (strides_of c')"
    by auto
  let ?tt = "\<lparr>data = data ?t, core = fresh h'\<rparr>"
  have ctt: "core_at N h'' (core ?tt) = Inr c''" using tt(2) by simp
  have "getShape N h a = Inr (sizes c)" "getStrides N h a = Inr (strides_of c)"
    using c(1) by (simp_all add: getShape_sizes getStrides_strides)
  moreover have "getShape N h'' ?tt = Inr (sizes c)" "getStrides N h'' ?tt = Inr (strides_of c)"
    using getShape_sizes [OF ctt] getStrides_strides [OF ctt] tt t by simp_all
  ultimately show ?thesis
    using t(1) tt(1) by blast
qed

theorem transpose_twice_witness:
  "valid 2 example_heap example_array
   \<and> (\<exists>t h' tt h''. ArrayBase_transpose 2 example_heap example_array = Inr (t, h')
         \<and> ArrayBase_transpose 2 h' t = Inr (tt, h'')
         \<and> getShape 2 h'' tt = Inr [2, 3] \<and> getStrides 2 h'' tt = Inr [3, 1])"
  using transpose_twice [OF valid_example] valid_example getShape_example getStrides_example
  by auto

text \<open>
  C8. For every valid array view of rank N > 1 and every integer n, operator[](n) returns
  a sub-view of rank N-1 on the same Core object, hence with the same Manager, whose data
  pointer is the parent's advanced by n times the stride of dimension 0. Nothing is
  assumed about n: no bound is checked.
\<close>

theorem subscript_shares_core:
  assumes "valid N h a" and "1 < N"
  shows "\<exists>stride0 shape strides manager sub h'.
           getStride N 0 h a = Inr stride0 \<and> getShape N h a = Inr shape
         \<and> getStrides N h a = Inr strides \<and> getManager N h a = Inr manager
         \<and> subscript T N h a n = Inr (SubArray sub, h')
         \<and> core sub = core a
         \<and> data sub = data a + int (sizeof T) * sint (n * stride0)
         \<and> getShape (N - 1) h' sub = Inr (tl shape)
         \<and> getStrides (N - 1) h' sub = Inr (tl strides)
         \<and> getManager (N - 1) h' sub = Inr manager"
proof -
  from assms(1) obtain c where c: "core_at N h (core a) = Inr c" "ND c = N"
    by (rule validE)
  from subscript_subarray [OF c(1) assms(2), of T n] obtain h' sub where s:
    "subscript T N h a n
       = Inr (SubArray \<lparr>data = ptr_add T (data a) (n * Core_getStride c), core = core a\<rparr>, h')"
    "core_at (N - 1) h' (core a) = Inr sub" "sizes sub = tl (sizes c)"
    "strides_of sub = tl (strides_of c)" "Core_getManager sub = Core_getManager c"
    by auto
  let ?s = "\<lparr>data = ptr_add T (data a) (n * Core_getStride c), core = core a\<rparr>"
  have cs: "core_at (N - 1) h' (core ?s) = Inr sub" using s(2) by simp
  have "getStride N 0 h a = Inr (Core_getStride c)"
    using c(1) by (simp add: getStride_def)
  moreover have "getShape N h a = Inr (sizes c)" "getStrides N h a = Inr (strides_of c)"
    "getManager N h a = Inr (Core_getManager c)"
    using c(1) by (simp_all add: getShape_sizes getStrides_strides getManager_core)
  moreover have "getShape (N - 1) h' ?s = Inr (tl (sizes c))"
    "getStrides (N - 1) h' ?s = Inr (tl (strides_of c))"
    "getManager (N - 1) h' ?s = Inr (Core_getManager c)"
    using getShape_sizes [OF cs] getStrides_strides [OF cs] getManager_core [OF cs] s
    by simp_all
  moreover have "data ?s = data a + int (sizeof T) * sint (n * Core_getStride c)"
    by (simp add: ptr_add_def)
  ultimately show ?thesis
    using s(1) by (intro exI [of _ "Core_getStride c"] exI [of _ "sizes c"]
        exI [of _ "strides_of c"] exI [of _ "Core_getManager c"] exI [of _ ?s] exI [of _ h'])
      simp
qed

theorem subscript_shares_core_witness:
  "valid 2 example_heap example_array \<and> (1::nat) < 2
   \<and> (\<exists>sub h'. subscript (Arithmetic 8) 2 example_heap example_array 1 = Inr (SubArray sub, h')
         \<and> core sub = core example_array
         \<and> getShape (2 - 1) h' sub = Inr [3])"
  using subscript_shares_core [OF valid_example, of "Arithmetic 8" 1] valid_example
    getShape_example
  by auto


section \<open>Flattening\<close>

lemma prod_list_drop:
  "n < length xs \<Longrightarrow> prod_list (drop n xs) = xs ! n * prod_list (drop (Suc n) (xs::cint list))"
  by (metis Cons_nth_drop_Suc prod_list.Cons)

lemma at_pred: "0 < k \<Longrightarrow> k \<le> length v \<Longrightarrow> at v (int k - 1) = Inr (v ! (k - 1))"
  by (cases k) (simp_all add: at_def)

lemma put_pred: "0 < k \<Longrightarrow> k \<le> length v \<Longrightarrow> put v (int k - 1) x = Inr (v[k - 1 := x])"
  by (cases k) (simp_all add: put_def)

lemma flatten_loop_ok:
  "0 < Nf \<Longrightarrow> length newShape = Nf \<Longrightarrow> length oldShape = N \<Longrightarrow> n \<le> N \<Longrightarrow>
   flatten_loop Nf N n oldShape newShape
     = Inr (newShape[Nf - 1 := newShape ! (Nf - 1) * prod_list (drop n oldShape)])"
proof (induction "N - n" arbitrary: n newShape)
  case 0
  then have "n = N" by simp
  then show ?case
    using 0 by (subst flatten_loop.simps) simp
next
  case (Suc k)
  then have lt: "n < N" by simp
  let ?l = "Nf - 1"
  have l: "?l < length newShape" using Suc.prems by simp
  let ?new = "newShape[?l := newShape ! ?l * oldShape ! n]"
  have step: "flatten_loop Nf N n oldShape newShape = flatten_loop Nf N (Suc n) oldShape ?new"
    using lt l Suc.prems
    by (subst flatten_loop.simps) (simp add: at_pred put_pred at_in_range)
  have "flatten_loop Nf N (Suc n) oldShape ?new
        = Inr (?new[?l := ?new ! ?l * prod_list (drop (Suc n) oldShape)])"
    using Suc.hyps(1) [of "Suc n" ?new] Suc.hyps(2) Suc.prems lt by simp
  moreover have "prod_list (drop n oldShape) = oldShape ! n * prod_list (drop (Suc n) oldShape)"
    using lt Suc.prems by (simp add: prod_list_drop)
  ultimately show ?case
    using step l by (simp add: mult.assoc)
qed

lemma take_update_last:
  assumes "0 < Nf" "Nf \<le> length xs"
  shows "(take Nf xs)[Nf - 1 := y] = take (Nf - 1) xs @ [y]"
proof -
  obtain k where k: "Nf = Suc k" using assms(1) by (cases Nf) auto
  then have "k < length xs" using assms(2) by simp
  then show ?thesis
    by (simp add: k take_Suc_conv_app_nth list_update_append)
qed

lemma prod_list_merge:
  "prod_list (take k xs @ [prod_list (drop k (xs::cint list))]) = prod_list xs"
proof -
  have "prod_list (take k xs @ drop k xs) = prod_list xs" by simp
  then show ?thesis by (simp del: append_take_drop_id)
qed

text \<open>
  C5. For every valid array view of rank N and contiguity C, and every Nf from 1 to N
  with C+Nf-N >= 1, flatten<Nf> returns a view whose last size is the product of the
  merged trailing sizes, whose last stride is 1, whose leading sizes and strides are
  unchanged, and whose number of elements is that of the input.
\<close>

theorem flatten_merges:
  assumes "valid N h input" and "1 \<le> Nf" and "Nf \<le> N" and "C + int Nf - int N \<ge> 1"
  shows "\<exists>shape strides f h'.
           getShape N h input = Inr shape \<and> getStrides N h input = Inr strides
         \<and> flatten Nf N C h input = Inr (f, h')
         \<and> getShape Nf h' f = Inr (take (Nf - 1) shape @ [prod_list (drop (Nf - 1) shape)])
         \<and> getStrides Nf h' f = Inr (take (Nf - 1) strides @ [1])
         \<and> getNumElements Nf h' f = getNumElements N h input
         \<and> getNumElements N h input = Inr (prod_list shape)
         \<and> getData f = getData input"
proof -
  from assms(1) obtain c where c: "core_at N h (core input) = Inr c" "ND c = N"
    "manager_live h (Core_getManager c)"
    by (rule validE)
  let ?shape = "sizes c" and ?strides = "strides_of c"
  let ?newShape = "take (Nf - 1) ?shape @ [prod_list (drop (Nf - 1) ?shape)]"
  let ?newStrides = "take (Nf - 1) ?strides @ [1]"
  have Nf: "0 < Nf" "Nf \<le> length ?shape" "Nf \<le> length ?strides"
    using assms(2,3) c(2) by simp_all
  have f1: "first Nf ?shape = Inr (take Nf ?shape)" "first Nf ?strides = Inr (take Nf ?strides)"
    using Nf by (simp_all add: first_def)
  have dr: "prod_list (drop (Nf - 1) ?shape) = ?shape ! (Nf - 1) * prod_list (drop Nf ?shape)"
    using Nf prod_list_drop [of "Nf - 1" ?shape] by simp
  have "flatten_loop Nf N Nf ?shape (take Nf ?shape)
        = Inr ((take Nf ?shape)[Nf - 1 := take Nf ?shape ! (Nf - 1) * prod_list (drop Nf ?shape)])"
    using flatten_loop_ok [of Nf "take Nf ?shape" ?shape N Nf] Nf assms(3) c(2) by simp
  moreover have "take Nf ?shape ! (Nf - 1) * prod_list (drop Nf ?shape)
                 = prod_list (drop (Nf - 1) ?shape)"
    using Nf dr by simp
  ultimately have loop: "flatten_loop Nf N Nf ?shape (take Nf ?shape) = Inr ?newShape"
    using Nf take_update_last [of Nf ?shape] by simp
  have pt: "put (take Nf ?strides) (int Nf - 1) 1 = Inr ?newStrides"
    using Nf take_update_last [of Nf ?strides 1] put_pred [of Nf "take Nf ?strides" 1]
    by simp
  have len: "length ?newShape = Nf" "length ?newStrides = Nf"
    using Nf by simp_all
  from create_ok [OF len c(3)] obtain h' c' where cr:
    "create Nf h ?newShape ?newStrides (Core_getManager c) = Inr (fresh h, h')"
    "core_at Nf h' (fresh h) = Inr c'" "sizes c' = ?newShape" "strides_of c' = ?newStrides"
    by auto
  let ?f = "\<lparr>data = data input, core = fresh h\<rparr>"
  have cf: "core_at Nf h' (core ?f) = Inr c'" using cr(2) by simp
  have fl: "flatten Nf N C h input = Inr (?f, h')"
    using assms(4) cr(1)
    by (simp add: flatten_def getShape_sizes [OF c(1)] getStrides_strides [OF c(1)]
        getManager_core [OF c(1)] f1 loop pt construct_from_new_def getData_def)
  have "getNumElements Nf h' ?f = Inr (prod_list ?newShape)"
    using getNumElements_core [OF cf] cr(3) by simp
  then have ne: "getNumElements Nf h' ?f = Inr (prod_list ?shape)"
    by (simp only: prod_list_merge)
  have "getShape N h input = Inr ?shape" "getStrides N h input = Inr ?strides"
    "getNumElements N h input = Inr (prod_list ?shape)"
    using c(1) by (simp_all add: getShape_sizes getStrides_strides getNumElements_core)
  moreover have "getShape Nf h' ?f = Inr ?newShape" "getStrides Nf h' ?f = Inr ?newStrides"
    using getShape_sizes [OF cf] getStrides_strides [OF cf] cr by simp_all
  moreover have "getData ?f = getData input" by (simp add: getData_def)
  ultimately show ?thesis
    using fl ne by (intro exI [of _ ?shape] exI [of _ ?strides] exI [of _ ?f] exI [of _ h'])
      simp
qed

theorem flatten_merges_witness:
  "valid 2 example_heap example_array \<and> (1::nat) \<le> 1 \<and> (1::nat) \<le> 2 \<and> 2 + int 1 - int 2 \<ge> 1
   \<and> (\<exists>f h'. flatten 1 2 2 example_heap example_array = Inr (f, h')
         \<and> getShape 1 h' f = Inr [6] \<and> getStrides 1 h' f = Inr [1]
         \<and> getNumElements 1 h' f = getNumElements 2 example_heap example_array)"
  using flatten_merges [OF valid_example, of 1 2] valid_example getShape_example
    getStrides_example
  by auto


section \<open>Real and imaginary parts\<close>

text \<open>
  C6. For every valid array view of complex elements, getReal and getImag return views
  with the input's shape and with every stride doubled; the data pointer of getReal is
  the input's, and that of getImag is one real component further.
\<close>

theorem complex_components:
  assumes "valid N h array"
  shows "\<exists>shape strides re hr im hi.
           getShape N h array = Inr shape \<and> getStrides N h array = Inr strides
         \<and> getReal (Complex r) N h array = Inr (re, hr)
         \<and> getShape N hr re = Inr shape \<and> getStrides N hr re = Inr (map (\<lambda>s. s * 2) strides)
         \<and> data re = data array
         \<and> getImag (Complex r) N h array = Inr (im, hi)
         \<and> getShape N hi im = Inr shape \<and> getStrides N hi im = Inr (map (\<lambda>s. s * 2) strides)
         \<and> data im = data array + int (sizeof (Arithmetic r))"
proof -
  from assms obtain c where c: "core_at N h (core array) = Inr c" "ND c = N"
    "manager_live h (Core_getManager c)"
    by (rule validE)
  let ?shape = "sizes c" and ?strides = "map (\<lambda>s. s * 2) (strides_of c)"
  have len: "length ?shape = N" "length ?strides = N" using c(2) by simp_all
  from create_ok [OF len c(3)] obtain h' c' where cr:
    "create N h ?shape ?strides (Core_getManager c) = Inr (fresh h, h')"
    "core_at N h' (fresh h) = Inr c'" "sizes c' = ?shape" "strides_of c' = ?strides"
    by auto
  have ap: "ComplexExtractor_apply (Complex r) N h array offset
            = Inr (\<lparr>data = ptr_add (Arithmetic r) (data array) offset, core = fresh h\<rparr>, h')"
    for offset
    by (simp add: ComplexExtractor_apply_def getShape_sizes [OF c(1)]
        getStrides_strides [OF c(1)] getManager_core [OF c(1)] times_scalar_def cr(1)
        construct_from_new_def getData_def)
  let ?re = "\<lparr>data = ptr_add (Arithmetic r) (data array) 0, core = fresh h\<rparr>"
  let ?im = "\<lparr>data = ptr_add (Arithmetic r) (data array) 1, core = fresh h\<rparr>"
  have cre: "core_at N h' (core ?re) = Inr c'" and cim: "core_at N h' (core ?im) = Inr c'"
    using cr(2) by simp_all
  have "getShape N h array = Inr (sizes c)" "getStrides N h array = Inr (strides_of c)"
    using c(1) by (simp_all add: getShape_sizes getStrides_strides)
  moreover have "getReal (Complex r) N h array = Inr (?re, h')"
    "getImag (Complex r) N h array = Inr (?im, h')"
    by (simp_all add: getReal_def getImag_def ap)
  moreover have "getShape N h' ?re = Inr ?shape" "getStrides N h' ?re = Inr ?strides"
    using getShape_sizes [OF cre] getStrides_strides [OF cre] cr by simp_all
  moreover have "getShape N h' ?im = Inr ?shape" "getStrides N h' ?im = Inr ?strides"
    using getShape_sizes [OF cim] getStrides_strides [OF cim] cr by simp_all
  moreover have "data ?re = data array" "data ?im = data array + int (sizeof (Arithmetic r))"
    by (simp_all add: ptr_add_def)
  ultimately show ?thesis
    by (intro exI [of _ "sizes c"] exI [of _ "strides_of c"] exI [of _ ?re] exI [of _ h']
        exI [of _ ?im]) simp
qed

theorem complex_components_witness:
  "valid 2 example_heap example_array
   \<and> (\<exists>re hr im hi. getReal (Complex 8) 2 example_heap example_array = Inr (re, hr)
         \<and> getShape 2 hr re = Inr [2, 3] \<and> getStrides 2 hr re = Inr [6, 2]
         \<and> data re = 4096
         \<and> getImag (Complex 8) 2 example_heap example_array = Inr (im, hi)
         \<and> getShape 2 hi im = Inr [2, 3] \<and> getStrides 2 hi im = Inr [6, 2]
         \<and> data im = 4104)"
  using complex_components [OF valid_example, of 8] valid_example getShape_example
    getStrides_example
  by (auto simp: example_array_def)


section \<open>Canonical strides\<close>

lemma Core_row_major_ok:
  "N \<le> length shape \<Longrightarrow>
   \<exists>c. Core_row_major N shape manager = Inr c \<and> ND c = N
       \<and> sizes c = drop (length shape - N) shape
       \<and> Core_getManager c = manager \<and> getRC c = 1
       \<and> (\<forall>d<N. strides_of c ! d = prod_list (drop (Suc d) (sizes c)))
       \<and> Core_getStride c * Core_getSize c = prod_list (sizes c)"
proof (induction N)
  case 0
  then show ?case by simp
next
  case (Suc N)
  let ?k = "length shape - Suc N"
  from Suc.prems have k: "?k < length shape" by simp
  have idx: "int (length shape) - int (Suc N) = int ?k"
    using Suc.prems by simp
  have sk: "length shape - N = Suc ?k"
    using Suc.prems by simp
  from Suc obtain c where c: "Core_row_major N shape manager = Inr c" "ND c = N"
    "sizes c = drop (length shape - N) shape" "Core_getManager c = manager" "getRC c = 1"
    "\<forall>d<N. strides_of c ! d = prod_list (drop (Suc d) (sizes c))"
    "Core_getStride c * Core_getSize c = prod_list (sizes c)"
    by auto
  let ?c = "CoreN (shape ! ?k) (Core_getStride c * Core_getSize c) c"
  have mk: "Core_row_major (Suc N) shape manager = Inr ?c"
    using k c(1) by (simp only: Core_row_major.simps idx at_in_range and_then_Inr)
  have "strides_of ?c ! d = prod_list (drop (Suc d) (sizes ?c))" if "d < Suc N" for d
    using that c(6,7) by (cases d) simp_all
  then have st: "\<forall>d<Suc N. strides_of ?c ! d = prod_list (drop (Suc d) (sizes ?c))"
    by blast
  have sz: "sizes ?c = drop ?k shape"
    using k c(3) by (simp add: sk Cons_nth_drop_Suc)
  have pr: "Core_getStride ?c * Core_getSize ?c = prod_list (sizes ?c)"
    using c(7) by (simp add: mult.commute)
  have "ND ?c = Suc N" "Core_getManager ?c = manager" "getRC ?c = 1"
    using c(2,4,5) by simp_all
  then show ?case
    using mk st sz pr by blast
qed

lemma Core_column_major_ok:
  "N \<le> length shape \<Longrightarrow>
   \<exists>c. Core_column_major N shape stride manager = Inr c \<and> ND c = N
       \<and> sizes c = drop (length shape - N) shape
       \<and> Core_getManager c = manager \<and> getRC c = 1
       \<and> (\<forall>d<N. strides_of c ! d = stride * prod_list (take d (sizes c)))"
proof (induction N arbitrary: stride)
  case 0
  then show ?case by simp
next
  case (Suc N)
  let ?k = "length shape - Suc N"
  from Suc.prems have k: "?k < length shape" and le: "N \<le> length shape" by simp_all
  have idx: "int (length shape) - int (Suc N) = int ?k"
    using Suc.prems by simp
  have sk: "length shape - N = Suc ?k"
    using Suc.prems by simp
  from Suc.IH [OF le, of "stride * shape ! ?k"]
  obtain c where c: "Core_column_major N shape (stride * shape ! ?k) manager = Inr c" "ND c = N"
    "sizes c = drop (length shape - N) shape" "Core_getManager c = manager" "getRC c = 1"
    "\<forall>d<N. strides_of c ! d = stride * shape ! ?k * prod_list (take d (sizes c))"
    by auto
  let ?c = "CoreN (shape ! ?k) stride c"
  have mk: "Core_column_major (Suc N) shape stride manager = Inr ?c"
    using k c(1) by (simp only: Core_column_major.simps idx at_in_range and_then_Inr)
  have "strides_of ?c ! d = stride * prod_list (take d (sizes ?c))" if "d < Suc N" for d
    using that c(6) by (cases d) (simp_all add: mult.assoc)
  then have st: "\<forall>d<Suc N. strides_of ?c ! d = stride * prod_list (take d (sizes ?c))"
    by blast
  have sz: "sizes ?c = drop ?k shape"
    using k c(3) by (simp add: sk Cons_nth_drop_Suc)
  have "ND ?c = Suc N" "Core_getManager ?c = manager" "getRC ?c = 1"
    using c(2,4,5) by simp_all
  then show ?case
    using mk st sz by blast
qed

lemma create_order_ok:
  assumes "Core_order = Inr c" "ND c = N" "manager_live h manager"
    and "create_order N h shape order manager
         = and_then Core_order (\<lambda>c. and_then (Manager_add_ref h manager) (\<lambda>h'. Inr (new_Core h' c)))"
  shows "\<exists>p h'. create_order N h shape order manager = Inr (p, h') \<and> core_at N h' p = Inr c"
proof -
  from Manager_add_ref_ok [OF assms(3)]
  obtain hm where hm: "Manager_add_ref h manager = Inr hm" by auto
  have "create_order N h shape order manager = Inr (new_Core hm c)"
    using assms(1,4) hm by simp
  moreover have "core_at N (snd (new_Core hm c)) (fst (new_Core hm c)) = Inr c"
    using assms(2) by (rule core_at_new)
  ultimately show ?thesis
    by (cases "new_Core hm c") auto
qed

text \<open>
  C7. For every shape vector, Core::create(shape, order, manager) builds a Core with that
  shape and canonical strides. In row-major order the stride of each dimension is the
  product of the sizes of all later dimensions, so the last stride is 1; in column-major
  order it is the product of the sizes of all earlier dimensions, so the first stride
  is 1.
\<close>

theorem create_order_canonical:
  assumes "length shape = N" and "manager_live h manager"
  shows "(\<exists>p h' c strides.
            create_order N h shape ROW_MAJOR manager = Inr (p, h') \<and> core_at N h' p = Inr c
          \<and> fillShape c (replicate N 0) = Inr shape
          \<and> fillStrides c (replicate N 0) = Inr strides \<and> length strides = N
          \<and> (\<forall>d<N. strides ! d = prod_list (drop (Suc d) shape))
          \<and> (0 < N \<longrightarrow> strides ! (N - 1) = 1))
       \<and> (\<exists>p h' c strides.
            create_order N h shape COLUMN_MAJOR manager = Inr (p, h') \<and> core_at N h' p = Inr c
          \<and> fillShape c (replicate N 0) = Inr shape
          \<and> fillStrides c (replicate N 0) = Inr strides \<and> length strides = N
          \<and> (\<forall>d<N. strides ! d = prod_list (take d shape))
          \<and> (0 < N \<longrightarrow> strides ! 0 = 1))"
proof
  from Core_row_major_ok [of N shape manager] assms(1)
  obtain c where c: "Core_row_major N shape manager = Inr c" "ND c = N" "sizes c = shape"
    "\<forall>d<N. strides_of c ! d = prod_list (drop (Suc d) (sizes c))"
    by auto
  have "create_order N h shape ROW_MAJOR manager
        = and_then (Core_row_major N shape manager)
            (\<lambda>c. and_then (Manager_add_ref h manager) (\<lambda>h'. Inr (new_Core h' c)))"
    by (simp add: create_order_def)
  from create_order_ok [OF c(1,2) assms(2) this]
  obtain p h' where p: "create_order N h shape ROW_MAJOR manager = Inr (p, h')"
    "core_at N h' p = Inr c" by auto
  have fs: "fillShape c (replicate N 0) = Inr shape"
    "fillStrides c (replicate N 0) = Inr (strides_of c)"
    using fillShape_ok [of c "replicate N 0"] fillStrides_ok [of c "replicate N 0"] c(2,3)
    by simp_all
  have "0 < N \<longrightarrow> strides_of c ! (N - 1) = 1"
    using c(2,3,4) assms(1) by auto
  then show "\<exists>p h' c strides.
            create_order N h shape ROW_MAJOR manager = Inr (p, h') \<and> core_at N h' p = Inr c
          \<and> fillShape c (replicate N 0) = Inr shape
          \<and> fillStrides c (replicate N 0) = Inr strides \<and> length strides = N
          \<and> (\<forall>d<N. strides ! d = prod_list (drop (Suc d) shape))
          \<and> (0 < N \<longrightarrow> strides ! (N - 1) = 1)"
    using p fs c(2,3,4) by (intro exI [of _ p] exI [of _ h'] exI [of _ c]
        exI [of _ "strides_of c"]) simp
next
  from Core_column_major_ok [of N shape 1 manager] assms(1)
  obtain c where c: "Core_column_major N shape 1 manager = Inr c" "ND c = N" "sizes c = shape"
    "\<forall>d<N. strides_of c ! d = 1 * prod_list (take d (sizes c))"
    by auto
  have "create_order N h shape COLUMN_MAJOR manager
        = and_then (Core_column_major N shape 1 manager)
            (\<lambda>c. and_then (Manager_add_ref h manager) (\<lambda>h'. Inr (new_Core h' c)))"
    by (simp add: create_order_def)
  from create_order_ok [OF c(1,2) assms(2) this]
  obtain p h' where p: "create_order N h shape COLUMN_MAJOR manager = Inr (p, h')"
    "core_at N h' p = Inr c" by auto
  have fs: "fillShape c (replicate N 0) = Inr shape"
    "fillStrides c (replicate N 0) = Inr (strides_of c)"
    using fillShape_ok [of c "replicate N 0"] fillStrides_ok [of c "replicate N 0"] c(2,3)
    by simp_all
  have "0 < N \<longrightarrow> strides_of c ! 0 = 1"
    using c(4) by auto
  then show "\<exists>p h' c strides.
            create_order N h shape COLUMN_MAJOR manager = Inr (p, h') \<and> core_at N h' p = Inr c
          \<and> fillShape c (replicate N 0) = Inr shape
          \<and> fillStrides c (replicate N 0) = Inr strides \<and> length strides = N
          \<and> (\<forall>d<N. strides ! d = prod_list (take d shape))
          \<and> (0 < N \<longrightarrow> strides ! 0 = 1)"
    using p fs c(2,3,4) by (intro exI [of _ p] exI [of _ h'] exI [of _ c]
        exI [of _ "strides_of c"]) simp
qed

lemma manager_live_example: "manager_live example_heap (Some 0)"
  by (simp add: manager_live_def example_heap_def)

theorem create_order_canonical_witness:
  "length [2, 3 :: cint] = 2 \<and> manager_live example_heap (Some 0)
   \<and> (\<exists>p h' c strides.
         create_order 2 example_heap [2, 3] ROW_MAJOR (Some 0) = Inr (p, h')
       \<and> core_at 2 h' p = Inr c \<and> fillStrides c (replicate 2 0) = Inr strides
       \<and> strides ! 0 = 3 \<and> strides ! 1 = 1)
   \<and> (\<exists>p h' c strides.
         create_order 2 example_heap [2, 3] COLUMN_MAJOR (Some 0) = Inr (p, h')
       \<and> core_at 2 h' p = Inr c \<and> fillStrides c (replicate 2 0) = Inr strides
       \<and> strides ! 0 = 1 \<and> strides ! 1 = 2)"
proof -
  have len: "length [2, 3 :: cint] = 2" by simp
  from create_order_canonical [OF len manager_live_example]
  obtain p h' c strides q g' e strides' where
    r: "create_order 2 example_heap [2, 3] ROW_MAJOR (Some 0) = Inr (p, h')"
      "core_at 2 h' p = Inr c" "fillStrides c (replicate 2 0) = Inr strides"
      "\<forall>d<2. strides ! d = prod_list (drop (Suc d) [2, 3])"
    and cm: "create_order 2 example_heap [2, 3] COLUMN_MAJOR (Some 0) = Inr (q, g')"
      "core_at 2 g' q = Inr e" "fillStrides e (replicate 2 0) = Inr strides'"
      "\<forall>d<2. strides' ! d = prod_list (take d [2, 3])"
    by blast
  have "strides ! 0 = 3" "strides ! 1 = 1" "strides' ! 0 = 1" "strides' ! 1 = 2"
    using r(4) cm(4) by simp_all
  then show ?thesis
    using len manager_live_example r(1,2,3) cm(1,2,3) by blast
qed

section \<open>The zero-length vector\<close>

text \<open>
  C9. For the zero-length Vector, sum() is 0 and product() is 1 whichever constructor
  built it and whatever its arguments were, and any two zero-length vectors are equal.
\<close>

theorem Vector0_identities:
  "Vector0_sum (v :: 'a::{zero,one} Vector0) = 0 \<and> Vector0_product v = 1
   \<and> Vector0_sum (Vector0_default :: 'a Vector0) = 0
   \<and> Vector0_product (Vector0_default :: 'a Vector0) = 1
   \<and> Vector0_sum (Vector0_scalar (scalar :: 'u) :: 'a Vector0) = 0
   \<and> Vector0_product (Vector0_scalar scalar :: 'a Vector0) = 1
   \<and> Vector0_sum (Vector0_copy (other :: 'u Vector0) :: 'a Vector0) = 0
   \<and> Vector0_product (Vector0_copy other :: 'a Vector0) = 1
   \<and> Vector0_eq v w \<and> \<not> Vector0_neq v w"
  by (simp add: Vector0_sum_def Vector0_product_def Vector0_eq_def Vector0_neq_def)

section \<open>Uniqueness\<close>

text \<open>
  C10. isUnique() returns true exactly when the Core's reference count is 1, a Manager is
  attached whose reference count is 1, and that Manager reports itself unique. A Core
  whose count is not 1, or whose Manager's count is not 1, is reported not unique.
\<close>

theorem isUnique_iff:
  "(isUnique h c = Inr True \<longleftrightarrow>
      getRC c = 1
    \<and> (\<exists>m mg. Core_getManager c = Some m \<and> managers h m = Some mg
             \<and> Manager_getRC mg = 1 \<and> Manager_isUnique mg))
   \<and> (getRC c \<noteq> 1
       \<or> (\<exists>m mg. Core_getManager c = Some m \<and> managers h m = Some mg \<and> Manager_getRC mg \<noteq> 1)
      \<longrightarrow> isUnique h c = Inr False)"
  by (induction c) (auto split: option.splits)

theorem isUnique_iff_witness:
  "isUnique example_heap (CoreN 2 3 (CoreN 3 1 (Core0 (Some 0) 1))) = Inr True
   \<and> isUnique example_heap (CoreN 2 3 (CoreN 3 1 (Core0 (Some 0) 2))) = Inr False"
  using isUnique_iff [of example_heap "CoreN 2 3 (CoreN 3 1 (Core0 (Some 0) 1))"]
    isUnique_iff [of example_heap "CoreN 2 3 (CoreN 3 1 (Core0 (Some 0) 2))"]
  by (simp add: example_heap_def)


section \<open>The dynamic dimension cast\<close>

lemma at_from_end:
  "1 \<le> i \<Longrightarrow> i \<le> int (length v) \<Longrightarrow> at v (int (length v) - i) = Inr (v ! (length v - nat i))"
  by (simp add: at_def nat_diff_distrib)

lemma trailing_loop_ok:
  "length shape = N \<Longrightarrow> length strides = N \<Longrightarrow> C \<le> int N \<Longrightarrow> 1 \<le> i \<Longrightarrow> i \<le> C + 1 \<Longrightarrow>
   trailing_loop N C shape strides i (prod_list (drop (N + 1 - nat i) shape))
     = Inr (\<forall>j. i \<le> j \<and> j \<le> C \<longrightarrow>
              strides ! (N - nat j) = prod_list (drop (N + 1 - nat j) shape))"
proof (induction "nat (C + 1 - i)" arbitrary: i)
  case 0
  then have "\<not> i \<le> C" by simp
  then show ?case
    by (subst trailing_loop.simps) auto
next
  case (Suc k)
  then have le: "i \<le> C" by simp
  let ?n = "prod_list (drop (N + 1 - nat i) shape)"
  have a1: "at strides (int N - i) = Inr (strides ! (N - nat i))"
    using at_from_end [of i strides] Suc.prems le by simp
  have a2: "at shape (int N - i) = Inr (shape ! (N - nat i))"
    using at_from_end [of i shape] Suc.prems le by simp
  show ?case
  proof (cases "strides ! (N - nat i) = ?n")
    case False
    have "trailing_loop N C shape strides i ?n = Inr False"
      using le False by (subst trailing_loop.simps) (simp add: a1)
    moreover have "\<not> (\<forall>j. i \<le> j \<and> j \<le> C \<longrightarrow>
              strides ! (N - nat j) = prod_list (drop (N + 1 - nat j) shape))"
      using le False by blast
    ultimately show ?thesis by simp
  next
    case True
    have lt: "N - nat i < length shape" using Suc.prems le by simp
    have sk: "Suc (N - nat i) = N + 1 - nat i" "N + 1 - nat (i + 1) = N - nat i"
      using Suc.prems le by (simp_all add: nat_add_distrib)
    have "prod_list (drop (N - nat i) shape)
          = shape ! (N - nat i) * prod_list (drop (Suc (N - nat i)) shape)"
      using lt by (rule prod_list_drop)
    then have n': "?n * shape ! (N - nat i) = prod_list (drop (N + 1 - nat (i + 1)) shape)"
      by (simp only: sk mult.commute)
    have "trailing_loop N C shape strides i ?n
          = trailing_loop N C shape strides (i + 1) (?n * shape ! (N - nat i))"
      using le True by (subst trailing_loop.simps) (simp add: a1 a2)
    also have "\<dots> = Inr (\<forall>j. i + 1 \<le> j \<and> j \<le> C \<longrightarrow>
              strides ! (N - nat j) = prod_list (drop (N + 1 - nat j) shape))"
      using Suc.hyps(1) [of "i + 1"] Suc.hyps(2) Suc.prems le by (simp only: n')
    also have "(\<forall>j. i + 1 \<le> j \<and> j \<le> C \<longrightarrow>
              strides ! (N - nat j) = prod_list (drop (N + 1 - nat j) shape))
          = (\<forall>j. i \<le> j \<and> j \<le> C \<longrightarrow>
              strides ! (N - nat j) = prod_list (drop (N + 1 - nat j) shape))"
    proof -
      have "i \<le> j \<longleftrightarrow> j = i \<or> i + 1 \<le> j" for j by arith
      then show ?thesis using True by auto
    qed
    finally show ?thesis .
  qed
qed

lemma leading_loop_ok:
  "0 \<le> i \<Longrightarrow> - C \<le> int (length strides) \<Longrightarrow>
   leading_loop C strides i 1 = Inr (\<forall>j. i \<le> j \<and> j < - C \<longrightarrow> strides ! nat j = 1)"
proof (induction "nat (- C - i)" arbitrary: i)
  case 0
  then have "\<not> i < - C" by simp
  then show ?case
    by (subst leading_loop.simps) auto
next
  case (Suc k)
  then have lt: "i < - C" by simp
  have a1: "at strides i = Inr (strides ! nat i)"
    using Suc.prems lt by (simp add: at_def)
  show ?case
  proof (cases "strides ! nat i = 1")
    case False
    have "leading_loop C strides i 1 = Inr False"
      using lt False by (subst leading_loop.simps) (simp add: a1)
    moreover have "\<not> (\<forall>j. i \<le> j \<and> j < - C \<longrightarrow> strides ! nat j = 1)"
      using lt False by blast
    ultimately show ?thesis by simp
  next
    case True
    have "leading_loop C strides i 1 = leading_loop C strides (i + 1) 1"
      using lt True by (subst leading_loop.simps) (simp add: a1)
    also have "\<dots> = Inr (\<forall>j. i + 1 \<le> j \<and> j < - C \<longrightarrow> strides ! nat j = 1)"
      using Suc.hyps(1) [of "i + 1"] Suc.hyps(2) Suc.prems lt by simp
    also have "(\<forall>j. i + 1 \<le> j \<and> j < - C \<longrightarrow> strides ! nat j = 1)
          = (\<forall>j. i \<le> j \<and> j < - C \<longrightarrow> strides ! nat j = 1)"
    proof -
      have "i \<le> j \<longleftrightarrow> j = i \<or> i + 1 \<le> j" for j by arith
      then show ?thesis using True by auto
    qed
    finally show ?thesis .
  qed
qed

lemma dynamic_dimension_cast_trailing:
  assumes "core_at N h (core a) = Inr c" and "0 \<le> C" and "C \<le> int N"
  shows "dynamic_dimension_cast C N h a
         = (if \<forall>j. 1 \<le> j \<and> j \<le> C \<longrightarrow>
                 strides_of c ! (N - nat j) = prod_list (drop (N + 1 - nat j) (sizes c))
            then static_dimension_cast h a else Array_default N h)"
proof -
  have nd: "ND c = N" using assms(1) by (rule core_at_ND)
  have "trailing_loop N C (sizes c) (strides_of c) 1 (prod_list (drop (N + 1 - nat 1) (sizes c)))
        = Inr (\<forall>j. 1 \<le> j \<and> j \<le> C \<longrightarrow>
                 strides_of c ! (N - nat j) = prod_list (drop (N + 1 - nat j) (sizes c)))"
    using nd assms(2,3) by (intro trailing_loop_ok) simp_all
  then have "trailing_loop N C (sizes c) (strides_of c) 1 1
        = Inr (\<forall>j. 1 \<le> j \<and> j \<le> C \<longrightarrow>
                 strides_of c ! (N - nat j) = prod_list (drop (N + 1 - nat j) (sizes c)))"
    using nd by simp
  then show ?thesis
    using assms(2)
    by (simp add: dynamic_dimension_cast_def getShape_sizes [OF assms(1)]
        getStrides_strides [OF assms(1)])
qed

lemma dynamic_dimension_cast_leading:
  assumes "core_at N h (core a) = Inr c" and "C < 0" and "- C \<le> int N"
  shows "dynamic_dimension_cast C N h a
         = (if \<forall>j. 0 \<le> j \<and> j < - C \<longrightarrow> strides_of c ! nat j = 1
            then static_dimension_cast h a else Array_default N h)"
proof -
  have nd: "ND c = N" using assms(1) by (rule core_at_ND)
  have "leading_loop C (strides_of c) 0 1
        = Inr (\<forall>j. 0 \<le> j \<and> j < - C \<longrightarrow> strides_of c ! nat j = 1)"
    using nd assms(3) by (intro leading_loop_ok) simp_all
  then show ?thesis
    using assms(2)
    by (simp add: dynamic_dimension_cast_def getShape_sizes [OF assms(1)]
        getStrides_strides [OF assms(1)])
qed

lemma static_dimension_cast_ok:
  assumes "core_at N h (core a) = Inr c"
  shows "\<exists>h'. static_dimension_cast h a = Inr (\<lparr>data = data a, core = core a\<rparr>, h')
              \<and> core_at N h' (core a) = Inr (add_ref c)"
proof -
  from Core_add_ref_ok [OF assms] obtain h' where h': "Core_add_ref h (core a) = Inr h'"
    by auto
  have "static_dimension_cast h a = Inr (\<lparr>data = data a, core = core a\<rparr>, h')"
    using h' by (simp add: static_dimension_cast_def construct_def getData_def)
  then show ?thesis
    using core_at_add_ref [OF assms h'] by simp
qed

lemma Array_default_ok:
  "\<exists>h'. Array_default N h = Inr (\<lparr>data = 0, core = fresh h\<rparr>, h')
        \<and> core_at N h' (fresh h) = Inr (Core_zero N None)"
proof -
  have nd: "ND (Core_zero N None) = N" by (induction N) simp_all
  have "Array_default N h
        = Inr (\<lparr>data = 0, core = fst (new_Core h (Core_zero N None))\<rparr>,
               snd (new_Core h (Core_zero N None)))"
    by (simp add: Array_default_def create_zero_def Manager_add_ref_def construct_from_new_def)
  moreover have "fst (new_Core h (Core_zero N None)) = fresh h"
    by (simp add: new_Core_def)
  ultimately show ?thesis
    using core_at_new [OF nd, of h] by auto
qed

lemma core_at_column_major:
  "core_at 2 column_major_heap (core example_array) = Inr (CoreN 2 1 (CoreN 3 2 (Core0 (Some 0) 1)))"
  by (simp add: core_at_def column_major_heap_def example_array_def numeral_2_eq_2)

lemma column_major_created:
  "Core_column_major 2 [2, 3] 1 (Some 0) = Inr (CoreN 2 1 (CoreN 3 2 (Core0 (Some 0) 1)))"
  by (simp add: numeral_2_eq_2 at_def)

lemma leading_loop_column_major: "leading_loop (- 2) [1, 2] 0 1 = Inr False"
  by (simp add: leading_loop.simps at_def)

text \<open>
  C1. dynamic_dimension_cast<C_> is to return the input view when the C_ trailing (or,
  for negative C_, the -C_ leading) dimensions are contiguous, and an empty view
  otherwise. On the column-major view of shape (2,3) and strides (1,2), whose two
  leading dimensions are contiguous, the cast with C_ = -2 returns the empty view: the
  leading loop multiplies its running product by the stride instead of the size.
\<close>

theorem dynamic_dimension_cast_rejects_column_major:
  "getShape 2 column_major_heap example_array = Inr [2, 3]
   \<and> getStrides 2 column_major_heap example_array = Inr [1, 2]
   \<and> \<not> isEmpty example_array
   \<and> (\<exists>r h'. dynamic_dimension_cast (- 2) 2 column_major_heap example_array = Inr (r, h')
             \<and> isEmpty r \<and> getData r = 0 \<and> core r \<noteq> core example_array)"
proof -
  have sh: "getShape 2 column_major_heap example_array = Inr [2, 3]"
    using getShape_sizes [OF core_at_column_major] by simp
  have st: "getStrides 2 column_major_heap example_array = Inr [1, 2]"
    using getStrides_strides [OF core_at_column_major] by simp
  have "dynamic_dimension_cast (- 2) 2 column_major_heap example_array
        = Array_default 2 column_major_heap"
    by (simp add: dynamic_dimension_cast_def sh st leading_loop_column_major)
  moreover have "Array_default 2 column_major_heap
        = Inr (\<lparr>data = 0, core = 1\<rparr>, snd (new_Core column_major_heap (Core_zero 2 None)))"
    by (simp add: Array_default_def create_zero_def Manager_add_ref_def construct_from_new_def
        new_Core_def column_major_heap_def)
  ultimately show ?thesis
    using sh st by (simp add: isEmpty_def getData_def example_array_def)
qed


end
